theory Spec2Isabelle
  imports Main
begin

section \<open>The broadcast-channel source\<close>

text \<open>
  A shallow embedding of the class \<open>BroadcastChannelSource\<close> (the variant with the
  \<open>sync\<close>, \<open>push\<close>, \<open>update\<close>, \<open>pull\<close>, \<open>query\<close>, \<open>success\<close> and \<open>error\<close> messages).
  The object's fields become a record that every method takes and returns. An
  \<open>async\<close> method is run from one suspension point to the next. An outbound request
  is suspended twice: on its send (\<open>await this.channel.postMessage(...)\<close>), after which
  it stores its resolver in \<open>_requests\<close>, and then on the promise of that resolver.
  Other events can reach the source in between. Inside \<open>_sync\<close> and the proxies an
  \<open>await\<close> is sequencing. What a suspended caller gets when its promise is settled is
  the function \<open>resume\<close>.
\<close>

subsection \<open>Data\<close>

type_synonym ident = string

datatype transform = Transform (tid: ident) (operations: "string list")

datatype query = Query (qid: ident) (expression: string)

text \<open>
  The JavaScript values that travel as results: \<open>undefined\<close>, the empty array literal
  \<open>[]\<close>, and any other result data.
\<close>

datatype val = Undefined | EmptyList | Data string

text \<open>
  \<open>TypeError\<close> is what reading a property of \<open>undefined\<close> throws; \<open>ClosedChannel\<close> is a
  send on a closed channel; \<open>Failure\<close> is an \<open>Error\<close> value raised by a listener or carried
  by an \<open>error\<close> message.
\<close>

datatype error = TypeError | ClosedChannel | Failure string

datatype message =
    SyncMessage transform
  | QueryMessage query
  | PullMessage query
  | UpdateMessage transform
  | PushMessage transform
  | SuccessMessage ident val
  | ErrorMessage ident error

text \<open>
  A \<open>Resolver\<close> is the pair \<open>{resolve, reject}\<close> of one promise. The promise is named
  by a number, and \<open>caller\<close> says which method created it and waits for it.
\<close>

datatype caller = PushCaller | UpdateCaller | PullCaller | QueryCaller

record resolver =
  promise :: nat
  caller :: caller

datatype settlement = Fulfilled val | Rejected error

datatype payload = OfTransform transform | OfQuery query

datatype arg = Result val | Raised error

text \<open>The listener chains that were run, in order, with their arguments.\<close>

datatype emission =
    FulfillInSeries string payload
  | SettleInSeries string payload arg

text \<open>The operations on the table \<open>_requests\<close> and the resolver calls, as they are executed.\<close>

datatype table_op = Stored ident nat | Deleted ident | Called nat

datatype task = ProxyQuery query | ProxyPull query | ProxyUpdate transform | ProxyPush transform

record broadcast_channel =
  name :: string
  closed :: bool
  posted :: "message list"

text \<open>
  \<open>channel\<close> is \<open>None\<close> until \<open>_activate\<close> assigns the field. \<open>applied\<close> lists the
  transforms handed to the local store by \<open>transformed\<close>. \<open>listeners\<close> gives, for an
  event name, what the listeners registered for it do to \<open>hints.data\<close> when they are run
  in series on a payload, or the error one of them raises. \<open>sending\<close> lists the
  outbound requests suspended on their send, each with the id it will store its
  resolver under. \<open>settled\<close> lists, in order, every call of a resolver's \<open>resolve\<close> or
  \<open>reject\<close>: the promise it belongs to and what that call hands to the caller waiting
  on it. A promise is settled by the first call on it; a later call on the same promise
  changes nothing for its caller. \<open>history\<close> lists, in order, the assignments to the
  table, the \<open>delete\<close> statements run on it and the resolver calls.
\<close>

record source =
  channelName :: string
  transformLog :: "ident list"
  applied :: "transform list"
  channel :: "broadcast_channel option"
  requests :: "ident \<rightharpoonup> resolver"
  sending :: "(caller \<times> ident) list"
  requestQueue :: "task list"
  syncQueue :: "transform list"
  promises :: nat
  settled :: "(nat \<times> settlement) list"
  history :: "table_op list"
  listeners :: "string \<Rightarrow> payload \<Rightarrow> val \<Rightarrow> error + val"
  emitted :: "emission list"

datatype completion = Returns val | Throws error | Sending | Awaits nat

record settings =
  channelSetting :: "string option"
  listenerSetting :: "string \<Rightarrow> payload \<Rightarrow> val \<Rightarrow> error + val"

subsection \<open>Construction and the channel\<close>

text \<open>\<open>settings.channel || 'orbit'\<close>: an absent or empty name gives the default.\<close>

definition constructor :: "settings \<Rightarrow> source" where
  "constructor cfg =
     \<lparr> channelName = (case channelSetting cfg of None \<Rightarrow> ''orbit''
                      | Some n \<Rightarrow> if n = [] then ''orbit'' else n),
       transformLog = [], applied = [], channel = None, requests = Map.empty,
       sending = [], requestQueue = [], syncQueue = [], promises = 0, settled = [], history = [],
       listeners = listenerSetting cfg, emitted = [] \<rparr>"

definition activate :: "source \<Rightarrow> source" where
  "activate s = s\<lparr>channel := Some \<lparr>name = channelName s, closed = False, posted = []\<rparr>\<rparr>"

text \<open>
  \<open>this.channel.postMessage(m)\<close>. With no channel the property read throws. The channel
  object is the broadcast-channel library's; after \<open>close\<close> it sends nothing more and a
  send fails.
\<close>

definition postMessage :: "message \<Rightarrow> source \<Rightarrow> error + source" where
  "postMessage m s =
     (case channel s of
        None \<Rightarrow> Inl TypeError
      | Some c \<Rightarrow>
          if closed c then Inl ClosedChannel
          else Inr (s\<lparr>channel := Some (c\<lparr>posted := posted c @ [m]\<rparr>)\<rparr>))"

text \<open>The error a send raises on the source as it is, if any.\<close>

definition channelFault :: "source \<Rightarrow> error option" where
  "channelFault s =
     (case channel s of
        None \<Rightarrow> Some TypeError
      | Some c \<Rightarrow> if closed c then Some ClosedChannel else None)"

text \<open>
  \<open>await this.channel.close(); await super.deactivate()\<close>. Closing a channel that is
  already closed is the library's no-op; the base class's \<open>deactivate\<close> touches none of
  the fields kept here.
\<close>

definition deactivate :: "source \<Rightarrow> completion \<times> source" where
  "deactivate s =
     (case channel s of
        None \<Rightarrow> (Throws TypeError, s)
      | Some c \<Rightarrow> (Returns Undefined, s\<lparr>channel := Some (c\<lparr>closed := True\<rparr>)\<rparr>))"

subsection \<open>The outbound requests\<close>

text \<open>
  \<open>await this.channel.postMessage(...)\<close>: the message has gone out and the method is
  suspended until the send completes.
\<close>

definition awaitSend :: "caller \<Rightarrow> ident \<Rightarrow> source \<Rightarrow> completion \<times> source" where
  "awaitSend k i s = (Sending, s\<lparr>sending := sending s @ [(k, i)]\<rparr>)"

text \<open>
  \<open>new Promise((resolve, reject) => { this._requests[id] = { resolve, reject }; })\<close>:
  a fresh promise whose resolver is stored under the id, replacing any resolver there.
  The table is a plain object. Under the key \<open>__proto__\<close> the assignment makes the
  resolver the object's prototype; a read of that key gives it back, as for any other
  key.
\<close>

definition newRequest :: "ident \<Rightarrow> caller \<Rightarrow> source \<Rightarrow> completion \<times> source" where
  "newRequest i k s =
     (Awaits (promises s),
      s\<lparr>requests := (requests s)(i \<mapsto> \<lparr>promise = promises s, caller = k\<rparr>),
        promises := Suc (promises s),
        history := history s @ [Stored i (promises s)]\<rparr>)"

text \<open>
  The rest of an outbound request, run when its send has completed: the \<open>n\<close>-th
  suspended request leaves \<open>sending\<close> and stores its resolver.
\<close>

definition sendCompleted :: "nat \<Rightarrow> source \<Rightarrow> completion \<times> source" where
  "sendCompleted n s =
     (if n < length (sending s) then
        newRequest (snd (sending s ! n)) (fst (sending s ! n))
          (s\<lparr>sending := take n (sending s) @ drop (Suc n) (sending s)\<rparr>)
      else (Returns Undefined, s))"

text \<open>
  What the suspended method hands to its own caller once its promise is settled:
  \<open>_push\<close> and \<open>_pull\<close> await the promise and then \<open>return []\<close>; \<open>_update\<close> and
  \<open>_query\<close> return the promise itself. A rejection is rethrown by all four.
\<close>

fun resume :: "caller \<Rightarrow> settlement \<Rightarrow> settlement" where
  "resume PushCaller (Fulfilled v) = Fulfilled EmptyList"
| "resume PullCaller (Fulfilled v) = Fulfilled EmptyList"
| "resume UpdateCaller (Fulfilled v) = Fulfilled v"
| "resume QueryCaller (Fulfilled v) = Fulfilled v"
| "resume k (Rejected e) = Rejected e"

definition source_push :: "transform \<Rightarrow> source \<Rightarrow> completion \<times> source" where
  "source_push t s =
     (if tid t \<notin> set (transformLog s) then
        (case postMessage (PushMessage t) s of
           Inl e \<Rightarrow> (Throws e, s)
         | Inr s1 \<Rightarrow> awaitSend PushCaller (tid t) s1)
      else (Returns EmptyList, s))"

definition source_update :: "transform \<Rightarrow> source \<Rightarrow> completion \<times> source" where
  "source_update t s =
     (if tid t \<notin> set (transformLog s) then
        (case postMessage (UpdateMessage t) s of
           Inl e \<Rightarrow> (Throws e, s)
         | Inr s1 \<Rightarrow> awaitSend UpdateCaller (tid t) s1)
      else (Returns Undefined, s))"

definition source_pull :: "query \<Rightarrow> source \<Rightarrow> completion \<times> source" where
  "source_pull q s =
     (case postMessage (PullMessage q) s of
        Inl e \<Rightarrow> (Throws e, s)
      | Inr s1 \<Rightarrow> awaitSend PullCaller (qid q) s1)"

definition source_query :: "query \<Rightarrow> source \<Rightarrow> completion \<times> source" where
  "source_query q s =
     (case postMessage (QueryMessage q) s of
        Inl e \<Rightarrow> (Throws e, s)
      | Inr s1 \<Rightarrow> awaitSend QueryCaller (qid q) s1)"

text \<open>
  An outbound request whose send completes before anything else happens to the source:
  the call, and then the rest of the method.
\<close>

definition uninterrupted ::
  "(source \<Rightarrow> completion \<times> source) \<Rightarrow> source \<Rightarrow> completion \<times> source" where
  "uninterrupted call s =
     (if fst (call s) = Sending then sendCompleted (length (sending s)) (snd (call s))
      else call s)"

text \<open>
  Modelled from the spec: \<open>transformed\<close> is a method of the base class \<open>Source\<close>, which
  is not among the source files. It applies a transform to the local store and marks it
  applied in the transform log.
\<close>

definition transformed :: "transform \<Rightarrow> source \<Rightarrow> source" where
  "transformed t s =
     s\<lparr>transformLog := transformLog s @ [tid t], applied := applied s @ [t]\<rparr>"

definition source_sync :: "transform \<Rightarrow> source \<Rightarrow> completion \<times> source" where
  "source_sync t s =
     (if tid t \<notin> set (transformLog s) then
        (case postMessage (SyncMessage t) s of
           Inl e \<Rightarrow> (Throws e, s)
         | Inr s1 \<Rightarrow> (Returns Undefined, transformed t s1))
      else (Returns Undefined, s))"

subsection \<open>The inbound proxies\<close>

text \<open>
  Modelled from the spec: \<open>fulfillInSeries\<close> and \<open>settleInSeries\<close> are functions of
  the library \<open>@orbit/core\<close>. The first runs an event's listeners in series on
  \<open>(payload, hints)\<close> and fails when one of them raises; the second runs every listener
  whatever the individual outcomes, so it always completes.
\<close>

definition fulfillInSeries ::
  "string \<Rightarrow> payload \<Rightarrow> val \<Rightarrow> source \<Rightarrow> (error + val) \<times> source" where
  "fulfillInSeries ev p h s =
     (listeners s ev p h, s\<lparr>emitted := emitted s @ [FulfillInSeries ev p]\<rparr>)"

definition settleInSeries :: "string \<Rightarrow> payload \<Rightarrow> arg \<Rightarrow> source \<Rightarrow> source" where
  "settleInSeries ev p a s = s\<lparr>emitted := emitted s @ [SettleInSeries ev p a]\<rparr>"

text \<open>
  The \<open>catch\<close> block the four proxies share in shape: settle the failure event, post
  the \<open>error\<close> message, and return nothing. A send that fails here leaves the method.
\<close>

definition catchError ::
  "string \<Rightarrow> payload \<Rightarrow> ident \<Rightarrow> error \<Rightarrow> source \<Rightarrow> completion \<times> source" where
  "catchError ev p i e s =
     (let s1 = settleInSeries ev p (Raised e) s in
      case postMessage (ErrorMessage i e) s1 of
        Inl e' \<Rightarrow> (Throws e', s1)
      | Inr s2 \<Rightarrow> (Returns Undefined, s2))"

definition proxyQuery :: "query \<Rightarrow> source \<Rightarrow> completion \<times> source" where
  "proxyQuery q s =
     (case fulfillInSeries ''beforeQuery'' (OfQuery q) Undefined s of
        (Inl e, s1) \<Rightarrow> catchError ''queryFail'' (OfQuery q) (qid q) e s1
      | (Inr result, s1) \<Rightarrow>
          (let s2 = settleInSeries ''proxyQuery'' (OfQuery q) (Result result) s1 in
           case postMessage (SuccessMessage (qid q) result) s2 of
             Inl e \<Rightarrow> catchError ''queryFail'' (OfQuery q) (qid q) e s2
           | Inr s3 \<Rightarrow> (Returns result, s3)))"

definition proxyPull :: "query \<Rightarrow> source \<Rightarrow> completion \<times> source" where
  "proxyPull q s =
     (case fulfillInSeries ''beforePull'' (OfQuery q) Undefined s of
        (Inl e, s1) \<Rightarrow> catchError ''pullFail'' (OfQuery q) (qid q) e s1
      | (Inr h, s1) \<Rightarrow>
          (let s2 = settleInSeries ''proxyPull'' (OfQuery q) (Result EmptyList) s1 in
           case postMessage (SuccessMessage (qid q) Undefined) s2 of
             Inl e \<Rightarrow> catchError ''pullFail'' (OfQuery q) (qid q) e s2
           | Inr s3 \<Rightarrow> (Returns EmptyList, s3)))"

definition proxyUpdate :: "transform \<Rightarrow> source \<Rightarrow> completion \<times> source" where
  "proxyUpdate t s =
     (if tid t \<in> set (transformLog s) then (Returns EmptyList, s)
      else
        (case fulfillInSeries ''beforeUpdate'' (OfTransform t) Undefined s of
           (Inl e, s1) \<Rightarrow> catchError ''updateFail'' (OfTransform t) (tid t) e s1
         | (Inr result, s1) \<Rightarrow>
             (let s2 = settleInSeries ''proxyUpdate'' (OfTransform t) (Result result) s1 in
              case postMessage (SuccessMessage (tid t) result) s2 of
                Inl e \<Rightarrow> catchError ''updateFail'' (OfTransform t) (tid t) e s2
              | Inr s3 \<Rightarrow> (Returns result, s3))))"

definition proxyPush :: "transform \<Rightarrow> source \<Rightarrow> completion \<times> source" where
  "proxyPush t s =
     (if tid t \<in> set (transformLog s) then (Returns EmptyList, s)
      else
        (case fulfillInSeries ''beforePush'' (OfTransform t) Undefined s of
           (Inl e, s1) \<Rightarrow> catchError ''pushFail'' (OfTransform t) (tid t) e s1
         | (Inr h, s1) \<Rightarrow>
             (let s2 = settleInSeries ''proxyPush'' (OfTransform t) (Result EmptyList) s1 in
              case postMessage (SuccessMessage (tid t) Undefined) s2 of
                Inl e \<Rightarrow> catchError ''pushFail'' (OfTransform t) (tid t) e s2
              | Inr s3 \<Rightarrow> (Returns EmptyList, s3))))"

subsection \<open>The reply router and the message handler\<close>

text \<open>
  The promise's \<open>resolve\<close> or \<open>reject\<close>, called after the entry is deleted: the waiting
  caller gets what \<open>resume\<close> makes of the settlement.
\<close>

definition settle :: "resolver \<Rightarrow> settlement \<Rightarrow> source \<Rightarrow> source" where
  "settle r x s =
     s\<lparr>settled := settled s @ [(promise r, resume (caller r) x)],
       history := history s @ [Called (promise r)]\<rparr>"

text \<open>
  \<open>delete this._requests[requestId]\<close> removes an own property of the table. A resolver
  stored under \<open>__proto__\<close> is the table's prototype, not an own property, so there the
  \<open>delete\<close> removes nothing and the resolver stays readable under that key.
\<close>

definition deleteRequest :: "ident \<Rightarrow> (ident \<rightharpoonup> resolver) \<Rightarrow> (ident \<rightharpoonup> resolver)" where
  "deleteRequest i m = (if i = ''__proto__'' then m else m(i := None))"

text \<open>
  \<open>const { resolve } = this._requests[requestId]\<close> destructures \<open>undefined\<close> when the
  table has no such key, which throws before anything is changed. (A key that reads as
  an inherited function gives no \<open>resolve\<close> either, and the call of it throws the same
  error, the table unchanged.)
\<close>

definition resolveRequest :: "ident \<Rightarrow> val \<Rightarrow> source \<Rightarrow> completion \<times> source" where
  "resolveRequest requestId result s =
     (case requests s requestId of
        None \<Rightarrow> (Throws TypeError, s)
      | Some r \<Rightarrow>
          (Returns Undefined,
           settle r (Fulfilled result)
             (s\<lparr>requests := deleteRequest requestId (requests s),
                history := history s @ [Deleted requestId]\<rparr>)))"

definition rejectRequest :: "ident \<Rightarrow> error \<Rightarrow> source \<Rightarrow> completion \<times> source" where
  "rejectRequest requestId e s =
     (case requests s requestId of
        None \<Rightarrow> (Throws TypeError, s)
      | Some r \<Rightarrow>
          (Returns Undefined,
           settle r (Rejected e)
             (s\<lparr>requests := deleteRequest requestId (requests s),
                history := history s @ [Deleted requestId]\<rparr>)))"

text \<open>
  \<open>this.sync\<close> and \<open>this._requestQueue.push\<close> only enqueue; neither is awaited, so
  nothing the queued work does is thrown here.
\<close>

fun handleMessage :: "message \<Rightarrow> source \<Rightarrow> completion \<times> source" where
  "handleMessage (SyncMessage t) s = (Returns Undefined, s\<lparr>syncQueue := syncQueue s @ [t]\<rparr>)"
| "handleMessage (QueryMessage q) s =
     (Returns Undefined, s\<lparr>requestQueue := requestQueue s @ [ProxyQuery q]\<rparr>)"
| "handleMessage (PullMessage q) s =
     (Returns Undefined, s\<lparr>requestQueue := requestQueue s @ [ProxyPull q]\<rparr>)"
| "handleMessage (UpdateMessage t) s =
     (Returns Undefined, s\<lparr>requestQueue := requestQueue s @ [ProxyUpdate t]\<rparr>)"
| "handleMessage (PushMessage t) s =
     (Returns Undefined, s\<lparr>requestQueue := requestQueue s @ [ProxyPush t]\<rparr>)"
| "handleMessage (SuccessMessage i result) s = resolveRequest i result s"
| "handleMessage (ErrorMessage i e) s = rejectRequest i e s"

text \<open>
  The source performs a queued task \<open>{type, data}\<close> by calling its method
  \<open>__type__(data)\<close>.
\<close>

fun perform :: "task \<Rightarrow> source \<Rightarrow> completion \<times> source" where
  "perform (ProxyQuery q) s = proxyQuery q s"
| "perform (ProxyPull q) s = proxyPull q s"
| "perform (ProxyUpdate t) s = proxyUpdate t s"
| "perform (ProxyPush t) s = proxyPush t s"

text \<open>
  Modelled from the spec: the request queue is the library's task queue, a FIFO queue
  with one worker that takes the next task and awaits it fully before the one after.
  The sync queue feeds \<open>_sync\<close> in the same way.
\<close>

definition processRequestQueue :: "source \<Rightarrow> source" where
  "processRequestQueue s =
     (case requestQueue s of
        [] \<Rightarrow> s
      | task # rest \<Rightarrow> snd (perform task (s\<lparr>requestQueue := rest\<rparr>)))"

definition processSyncQueue :: "source \<Rightarrow> source" where
  "processSyncQueue s =
     (case syncQueue s of
        [] \<Rightarrow> s
      | t # rest \<Rightarrow> snd (source_sync t (s\<lparr>syncQueue := rest\<rparr>)))"

subsection \<open>Runs of the source\<close>

text \<open>Everything that can happen to one source, one event at a time.\<close>

datatype event =
    CallPush transform
  | CallUpdate transform
  | CallPull query
  | CallQuery query
  | CallSync transform
  | SendCompleted nat
  | Receive message
  | ProcessRequest
  | ProcessSync
  | Activate
  | Deactivate

fun fire :: "event \<Rightarrow> source \<Rightarrow> source" where
  "fire (CallPush t) s = snd (source_push t s)"
| "fire (CallUpdate t) s = snd (source_update t s)"
| "fire (CallPull q) s = snd (source_pull q s)"
| "fire (CallQuery q) s = snd (source_query q s)"
| "fire (CallSync t) s = snd (source_sync t s)"
| "fire (SendCompleted n) s = snd (sendCompleted n s)"
| "fire (Receive m) s = snd (handleMessage m s)"
| "fire ProcessRequest s = processRequestQueue s"
| "fire ProcessSync s = processSyncQueue s"
| "fire Activate s = activate s"
| "fire Deactivate s = snd (deactivate s)"

definition run :: "event list \<Rightarrow> source \<Rightarrow> source" where
  "run evs s = fold fire evs s"

subsection \<open>Concrete sources\<close>

text \<open>
  A source with no listener that raises or supplies a result, freshly constructed and
  activated, and the same source after the transform \<open>t1\<close> has been applied to it.
\<close>

definition quiet :: settings where
  "quiet = \<lparr>channelSetting = None, listenerSetting = (\<lambda>ev p h. Inr h)\<rparr>"

definition ready :: source where
  "ready = activate (constructor quiet)"

definition replayState :: source where
  "replayState = ready\<lparr>transformLog := [''t1''], applied := [Transform ''t1'' []]\<rparr>"

text \<open>The source after message \<open>m\<close> has gone out on its open channel \<open>c\<close>.\<close>

definition sent :: "message \<Rightarrow> broadcast_channel \<Rightarrow> source \<Rightarrow> source" where
  "sent m c s = s\<lparr>channel := Some (c\<lparr>posted := posted c @ [m]\<rparr>)\<rparr>"

text \<open>The ready source with a listener that vetoes every request it is asked about.\<close>

definition vetoing :: source where
  "vetoing = ready\<lparr>listeners := (\<lambda>ev p h. Inl (Failure ''ValidationFailed''))\<rparr>"

subsection \<open>The correlation table's invariant\<close>

text \<open>
  Every pending resolver belongs to a promise that was created, and under any id but
  \<open>__proto__\<close> to one no resolver call has been made on; resolvers under different ids
  belong to different promises; and resolver calls are made only on promises that were
  created.
\<close>

definition table_inv :: "source \<Rightarrow> bool" where
  "table_inv s \<longleftrightarrow>
     (\<forall>i r. requests s i = Some r \<longrightarrow>
        promise r < promises s
        \<and> (i \<noteq> ''__proto__'' \<longrightarrow> promise r \<notin> fst ` set (settled s)))
   \<and> (\<forall>i j r r'. requests s i = Some r \<and> requests s j = Some r' \<and> promise r = promise r'
        \<longrightarrow> i = j)
   \<and> (\<forall>p \<in> fst ` set (settled s). p < promises s)"

text \<open>
  No resolver call was made twice on one promise, and the id \<open>__proto__\<close> is neither
  in the table nor about to be stored in it.
\<close>

definition once_inv :: "source \<Rightarrow> bool" where
  "once_inv s \<longleftrightarrow>
     requests s ''__proto__'' = None
   \<and> ''__proto__'' \<notin> snd ` set (sending s)
   \<and> distinct (map fst (settled s))"

text \<open>The outbound requests made under an id, and the runs that make none under \<open>__proto__\<close>.\<close>

fun callsUnder :: "ident \<Rightarrow> event \<Rightarrow> bool" where
  "callsUnder i (CallPush t) = (tid t = i)"
| "callsUnder i (CallUpdate t) = (tid t = i)"
| "callsUnder i (CallPull q) = (qid q = i)"
| "callsUnder i (CallQuery q) = (qid q = i)"
| "callsUnder i ev = False"

definition protoFree :: "event list \<Rightarrow> bool" where
  "protoFree evs = list_all (\<lambda>ev. \<not> callsUnder ''__proto__'' ev) evs"

text \<open>
  The events that concern the table's entry for an id: the completed send of a request
  made under that id, which stores the resolver, and a reply that carries the id.
\<close>

fun correlates :: "source \<Rightarrow> ident \<Rightarrow> event \<Rightarrow> bool" where
  "correlates s i (SendCompleted n) = (n < length (sending s) \<and> snd (sending s ! n) = i)"
| "correlates s i (Receive (SuccessMessage j v)) = (j = i)"
| "correlates s i (Receive (ErrorMessage j e)) = (j = i)"
| "correlates s i ev = False"

section \<open>Properties\<close>

lemmas proxy_defs = proxyPush_def proxyUpdate_def proxyPull_def proxyQuery_def
  catchError_def fulfillInSeries_def settleInSeries_def postMessage_def

lemmas concrete_defs = quiet_def ready_def replayState_def activate_def constructor_def

lemma postMessage_open:
  "channel s = Some c \<Longrightarrow> \<not> closed c \<Longrightarrow> postMessage m s = Inr (sent m c s)"
  by (simp add: postMessage_def sent_def)

lemma ready_channel:
  "channel ready = Some \<lparr>name = ''orbit'', closed = False, posted = []\<rparr>"
  by (simp add: concrete_defs)

subsection \<open>Replay of an inbound write\<close>

text \<open>
  C1. An inbound push or update whose transform id is already in the transform log: the
  proxy returns the empty list to the request queue at once and runs no listener chain,
  but nothing is posted on the channel. At the source \<open>replayState\<close>, whose log holds
  \<open>t1\<close>, both write proxies leave the source as it was, with no message posted and no
  chain run; a received push for \<open>t1\<close> is taken off the request queue with nothing sent
  back. The same push received by \<open>ready\<close>, whose log is empty, is answered with the
  \<open>success\<close> message, as it is on every other path of the proxy.
\<close>

theorem proxy_replay_sends_no_reply:
  "proxyPush (Transform ''t1'' []) replayState = (Returns EmptyList, replayState)
   \<and> proxyUpdate (Transform ''t1'' []) replayState = (Returns EmptyList, replayState)
   \<and> map_option posted (channel replayState) = Some []
   \<and> emitted replayState = []
   \<and> fire ProcessRequest (fire (Receive (PushMessage (Transform ''t1'' []))) replayState)
       = replayState
   \<and> map_option posted (channel
         (fire ProcessRequest (fire (Receive (PushMessage (Transform ''t1'' []))) ready)))
       = Some [SuccessMessage ''t1'' Undefined]"
  by (simp add: processRequestQueue_def proxyPush_def proxyUpdate_def fulfillInSeries_def
      settleInSeries_def postMessage_def concrete_defs)

subsection \<open>Replies without a correlation entry\<close>

text \<open>
  C2, as stated, fails: a \<open>success\<close> or \<open>error\<close> message whose id has no entry in the
  table makes the handler throw a \<open>TypeError\<close>.
\<close>

theorem dangling_reply_counterexample:
  "fst (handleMessage (SuccessMessage ''x1'' Undefined) ready) = Throws TypeError
   \<and> fst (handleMessage (ErrorMessage ''x1'' (Failure ''boom'')) ready) = Throws TypeError"
  by (simp add: resolveRequest_def rejectRequest_def concrete_defs)

text \<open>
  C2, amended. For every \<open>success\<close> or \<open>error\<close> message whose id has no live entry,
  the reply router throws a \<open>TypeError\<close> out of the message handler; no continuation is
  invoked and the source, with every pending entry of the table, is left as it was.
\<close>

theorem dangling_reply_throws:
  "requests s i = None \<Longrightarrow>
   handleMessage (SuccessMessage i result) s = (Throws TypeError, s)
   \<and> handleMessage (ErrorMessage i e) s = (Throws TypeError, s)"
  by (simp add: resolveRequest_def rejectRequest_def)

theorem dangling_reply_throws_witness:
  "requests ready ''x1'' = None
   \<and> handleMessage (SuccessMessage ''x1'' Undefined) ready = (Throws TypeError, ready)
   \<and> handleMessage (ErrorMessage ''x1'' (Failure ''boom'')) ready = (Throws TypeError, ready)"
  using dangling_reply_throws [of ready "''x1''" Undefined "Failure ''boom''"]
  by (simp add: concrete_defs)

subsection \<open>Deactivation\<close>

text \<open>
  C3, as stated, fails: on a source that was never activated the channel field is
  still undefined, and \<open>deactivate\<close> throws a \<open>TypeError\<close>.
\<close>

theorem deactivate_unactivated_counterexample:
  "fst (deactivate (constructor quiet)) = Throws TypeError"
  by (simp add: deactivate_def constructor_def)

text \<open>
  C3, amended. On a source that has been activated, \<open>deactivate\<close> returns without
  throwing and leaves the channel closed, whether the channel was open or already
  closed. On a source that was never activated it throws a \<open>TypeError\<close> and changes
  nothing.
\<close>

theorem deactivate_after_activate:
  "(channel s = Some c \<longrightarrow>
      deactivate s = (Returns Undefined, s\<lparr>channel := Some (c\<lparr>closed := True\<rparr>)\<rparr>))
   \<and> (channel s = None \<longrightarrow> deactivate s = (Throws TypeError, s))"
  by (simp add: deactivate_def)

theorem deactivate_after_activate_witness:
  "fst (deactivate ready) = Returns Undefined
   \<and> map_option closed (channel (snd (deactivate ready))) = Some True
   \<and> fst (deactivate (snd (deactivate ready))) = Returns Undefined
   \<and> channel (constructor quiet) = None
   \<and> deactivate (constructor quiet) = (Throws TypeError, constructor quiet)"
  using deactivate_after_activate [of ready "\<lparr>name = ''orbit'', closed = False, posted = []\<rparr>"]
    deactivate_after_activate
      [of "snd (deactivate ready)" "\<lparr>name = ''orbit'', closed = True, posted = []\<rparr>"]
    deactivate_after_activate [of "constructor quiet"]
  by (simp add: ready_channel) (simp add: constructor_def)

subsection \<open>The outbound requests\<close>

text \<open>
  C4. \<open>replicate\<close> is \<open>_sync\<close>. For a transform whose id is in the transform log it
  is a no-op: it returns and the source is unchanged, so no message is posted and the
  local store is untouched. For a transform not yet in the log, on an open channel, it
  posts the \<open>sync\<close> message, then applies the transform locally, and returns.
\<close>

theorem replicate_sync:
  "(tid t \<in> set (transformLog s) \<longrightarrow> source_sync t s = (Returns Undefined, s))
   \<and> (tid t \<notin> set (transformLog s) \<and> channel s = Some c \<and> \<not> closed c \<longrightarrow>
        source_sync t s = (Returns Undefined, transformed t (sent (SyncMessage t) c s))
        \<and> map_option posted (channel (snd (source_sync t s))) = Some (posted c @ [SyncMessage t])
        \<and> applied (snd (source_sync t s)) = applied s @ [t]
        \<and> transformLog (snd (source_sync t s)) = transformLog s @ [tid t])"
  by (simp add: source_sync_def postMessage_open transformed_def sent_def)

theorem replicate_sync_witness:
  "tid (Transform ''t1'' []) \<in> set (transformLog replayState)
   \<and> source_sync (Transform ''t1'' []) replayState = (Returns Undefined, replayState)
   \<and> tid (Transform ''t2'' []) \<notin> set (transformLog ready)
   \<and> map_option posted (channel (snd (source_sync (Transform ''t2'' []) ready)))
       = Some [SyncMessage (Transform ''t2'' [])]
   \<and> applied (snd (source_sync (Transform ''t2'' []) ready)) = [Transform ''t2'' []]
   \<and> transformLog (snd (source_sync (Transform ''t2'' []) ready)) = [''t2'']"
  using replicate_sync [of "Transform ''t1'' []" replayState]
    replicate_sync [of "Transform ''t2'' []" ready "\<lparr>name = ''orbit'', closed = False, posted = []\<rparr>"]
  by (simp add: concrete_defs transformed_def sent_def)

text \<open>
  C5, as stated, fails for \<open>_push\<close>: a \<open>success\<close> reply that carries the result \<open>r\<close>
  resolves the \<open>_push\<close> caller with the empty list, not with that result.
\<close>

theorem push_discards_result_counterexample:
  "settled (snd (handleMessage (SuccessMessage ''t2'' (Data ''r''))
       (snd (uninterrupted (source_push (Transform ''t2'' [])) ready))))
     = [(0, Fulfilled EmptyList)]
   \<and> Fulfilled EmptyList \<noteq> Fulfilled (Data ''r'')"
  by (simp add: uninterrupted_def source_push_def postMessage_def awaitSend_def
      sendCompleted_def newRequest_def resolveRequest_def settle_def concrete_defs)

text \<open>
  C5, amended. \<open>forwardWrite\<close> is \<open>_push\<close> and \<open>_update\<close>. When the transform's id is
  in the transform log both return at once with an empty result (\<open>[]\<close> and
  \<open>undefined\<close>) and change nothing. Otherwise, on an open channel, each posts its
  \<open>push\<close> or \<open>update\<close> message and is suspended on the send; when the send has
  completed it registers a resolver under the transform's id and suspends on its
  promise, settling nothing. A \<open>success\<close> reply for that id then resolves the
  \<open>_update\<close> caller with the reply's result and the \<open>_push\<close> caller with the empty
  list, whatever the reply carries; an \<open>error\<close> reply fails either caller with the
  carried error.
\<close>

theorem forwardWrite_outcomes:
  "(tid t \<in> set (transformLog s) \<longrightarrow>
      source_push t s = (Returns EmptyList, s) \<and> source_update t s = (Returns Undefined, s))
   \<and> (tid t \<notin> set (transformLog s) \<and> channel s = Some c \<and> \<not> closed c \<longrightarrow>
        source_push t s = awaitSend PushCaller (tid t) (sent (PushMessage t) c s)
        \<and> source_update t s = awaitSend UpdateCaller (tid t) (sent (UpdateMessage t) c s)
        \<and> uninterrupted (source_push t) s
             = newRequest (tid t) PushCaller (sent (PushMessage t) c s)
        \<and> uninterrupted (source_update t) s
             = newRequest (tid t) UpdateCaller (sent (UpdateMessage t) c s)
        \<and> fst (uninterrupted (source_push t) s) = Awaits (promises s)
        \<and> fst (uninterrupted (source_update t) s) = Awaits (promises s)
        \<and> map_option posted (channel (snd (source_push t s))) = Some (posted c @ [PushMessage t])
        \<and> map_option posted (channel (snd (source_update t s))) = Some (posted c @ [UpdateMessage t])
        \<and> requests (snd (uninterrupted (source_push t) s)) (tid t)
             = Some \<lparr>promise = promises s, caller = PushCaller\<rparr>
        \<and> requests (snd (uninterrupted (source_update t) s)) (tid t)
             = Some \<lparr>promise = promises s, caller = UpdateCaller\<rparr>
        \<and> settled (snd (uninterrupted (source_push t) s)) = settled s
        \<and> settled (snd (uninterrupted (source_update t) s)) = settled s
        \<and> settled (snd (handleMessage (SuccessMessage (tid t) v)
               (snd (uninterrupted (source_push t) s))))
             = settled s @ [(promises s, Fulfilled EmptyList)]
        \<and> settled (snd (handleMessage (SuccessMessage (tid t) v)
               (snd (uninterrupted (source_update t) s))))
             = settled s @ [(promises s, Fulfilled v)]
        \<and> settled (snd (handleMessage (ErrorMessage (tid t) e)
               (snd (uninterrupted (source_push t) s))))
             = settled s @ [(promises s, Rejected e)]
        \<and> settled (snd (handleMessage (ErrorMessage (tid t) e)
               (snd (uninterrupted (source_update t) s))))
             = settled s @ [(promises s, Rejected e)])"
  by (simp add: uninterrupted_def source_push_def source_update_def postMessage_open
      awaitSend_def sendCompleted_def newRequest_def sent_def resolveRequest_def
      rejectRequest_def settle_def)

theorem forwardWrite_outcomes_witness:
  "source_push (Transform ''t1'' []) replayState = (Returns EmptyList, replayState)
   \<and> source_update (Transform ''t1'' []) replayState = (Returns Undefined, replayState)
   \<and> fst (source_update (Transform ''t2'' []) ready) = Sending
   \<and> fst (uninterrupted (source_update (Transform ''t2'' [])) ready) = Awaits 0
   \<and> map_option posted (channel (snd (source_push (Transform ''t2'' []) ready)))
        = Some [PushMessage (Transform ''t2'' [])]
   \<and> settled (snd (handleMessage (SuccessMessage ''t2'' (Data ''r''))
        (snd (uninterrupted (source_push (Transform ''t2'' [])) ready))))
        = [(0, Fulfilled EmptyList)]
   \<and> settled (snd (handleMessage (SuccessMessage ''t2'' (Data ''r''))
        (snd (uninterrupted (source_update (Transform ''t2'' [])) ready))))
        = [(0, Fulfilled (Data ''r''))]
   \<and> settled (snd (handleMessage (ErrorMessage ''t2'' (Failure ''ValidationFailed''))
        (snd (uninterrupted (source_update (Transform ''t2'' [])) ready))))
        = [(0, Rejected (Failure ''ValidationFailed''))]"
  using forwardWrite_outcomes [of "Transform ''t1'' []" replayState]
    forwardWrite_outcomes [of "Transform ''t2'' []" ready
       "\<lparr>name = ''orbit'', closed = False, posted = []\<rparr>"
       "Data ''r''" "Failure ''ValidationFailed''"]
  by (simp add: concrete_defs awaitSend_def newRequest_def sent_def resolveRequest_def
      rejectRequest_def settle_def)

text \<open>
  C6, as stated, fails in its last part: a \<open>success\<close> reply that carries the result
  \<open>rows\<close> resolves the \<open>_pull\<close> caller with the empty list, not with that result.
\<close>

theorem pull_discards_result_counterexample:
  "settled (snd (handleMessage (SuccessMessage ''q1'' (Data ''rows''))
       (snd (uninterrupted (source_pull (Query ''q1'' ''authors'')) ready))))
     = [(0, Fulfilled EmptyList)]
   \<and> Fulfilled EmptyList \<noteq> Fulfilled (Data ''rows'')"
  by (simp add: uninterrupted_def source_pull_def postMessage_def awaitSend_def
      sendCompleted_def newRequest_def resolveRequest_def settle_def concrete_defs)

text \<open>
  C6, amended. \<open>forwardRead\<close> is \<open>_pull\<close>. On an open channel it posts the \<open>pull\<close>
  message without consulting the transform log and is suspended on the send; when the
  send has completed it registers a resolver under the query's id and suspends on its
  promise. A \<open>success\<close> reply for that id resolves the caller with the empty list
  whatever result the reply carries; an \<open>error\<close> reply fails it with the carried
  error.
\<close>

theorem forwardRead_outcomes:
  "channel s = Some c \<and> \<not> closed c \<longrightarrow>
     source_pull q s = awaitSend PullCaller (qid q) (sent (PullMessage q) c s)
     \<and> uninterrupted (source_pull q) s = newRequest (qid q) PullCaller (sent (PullMessage q) c s)
     \<and> fst (uninterrupted (source_pull q) s) = Awaits (promises s)
     \<and> map_option posted (channel (snd (source_pull q s))) = Some (posted c @ [PullMessage q])
     \<and> requests (snd (uninterrupted (source_pull q) s)) (qid q)
          = Some \<lparr>promise = promises s, caller = PullCaller\<rparr>
     \<and> settled (snd (uninterrupted (source_pull q) s)) = settled s
     \<and> settled (snd (handleMessage (SuccessMessage (qid q) v)
            (snd (uninterrupted (source_pull q) s))))
          = settled s @ [(promises s, Fulfilled EmptyList)]
     \<and> settled (snd (handleMessage (ErrorMessage (qid q) e)
            (snd (uninterrupted (source_pull q) s))))
          = settled s @ [(promises s, Rejected e)]"
  by (simp add: uninterrupted_def source_pull_def postMessage_open awaitSend_def
      sendCompleted_def newRequest_def sent_def resolveRequest_def rejectRequest_def settle_def)

theorem forwardRead_outcomes_witness:
  "qid (Query ''t1'' ''authors'') \<in> set (transformLog replayState)
   \<and> fst (source_pull (Query ''t1'' ''authors'') replayState) = Sending
   \<and> fst (uninterrupted (source_pull (Query ''t1'' ''authors'')) replayState) = Awaits 0
   \<and> map_option posted (channel (snd (source_pull (Query ''t1'' ''authors'') replayState)))
        = Some [PullMessage (Query ''t1'' ''authors'')]
   \<and> settled (snd (handleMessage (SuccessMessage ''t1'' (Data ''rows''))
        (snd (uninterrupted (source_pull (Query ''t1'' ''authors'')) replayState))))
        = [(0, Fulfilled EmptyList)]"
  using forwardRead_outcomes [of replayState "\<lparr>name = ''orbit'', closed = False, posted = []\<rparr>"
      "Query ''t1'' ''authors''" "Data ''rows''" "Failure ''x''"]
  by (simp add: concrete_defs awaitSend_def newRequest_def sent_def resolveRequest_def
      settle_def)

subsection \<open>The write proxies\<close>

lemma proxy_log:
  "transformLog (snd (proxyPush t s)) = transformLog s
   \<and> applied (snd (proxyPush t s)) = applied s
   \<and> transformLog (snd (proxyUpdate t s)) = transformLog s
   \<and> applied (snd (proxyUpdate t s)) = applied s"
  by (simp add: proxyPush_def proxyUpdate_def catchError_def fulfillInSeries_def
      settleInSeries_def postMessage_def Let_def split: sum.splits option.splits)

lemma postMessage_fault:
  "channelFault s = Some e \<Longrightarrow> postMessage m s = Inl e"
  by (auto simp: channelFault_def postMessage_def split: option.splits if_splits)

text \<open>
  C7, as stated, fails when the step that raises is the send of the \<open>success\<close>
  message. A push is received, the channel is closed, and the queued proxy then runs:
  its send raises, the failure event's listeners are run, but the \<open>error\<close> message
  cannot be posted either, and the proxy itself ends with the send's error.
\<close>

theorem write_proxy_closed_channel_counterexample:
  "proxyPush (Transform ''t3'' []) (snd (deactivate ready))
     = (Throws ClosedChannel,
        (snd (deactivate ready))
          \<lparr>emitted := [FulfillInSeries ''beforePush'' (OfTransform (Transform ''t3'' [])),
             SettleInSeries ''proxyPush'' (OfTransform (Transform ''t3'' [])) (Result EmptyList),
             SettleInSeries ''pushFail'' (OfTransform (Transform ''t3'' [])) (Raised ClosedChannel)]\<rparr>)
   \<and> map_option posted (channel (fire ProcessRequest (fire Deactivate
         (fire (Receive (PushMessage (Transform ''t3'' []))) ready)))) = Some []
   \<and> emitted (fire ProcessRequest (fire Deactivate
         (fire (Receive (PushMessage (Transform ''t3'' []))) ready)))
       = [FulfillInSeries ''beforePush'' (OfTransform (Transform ''t3'' [])),
          SettleInSeries ''proxyPush'' (OfTransform (Transform ''t3'' [])) (Result EmptyList),
          SettleInSeries ''pushFail'' (OfTransform (Transform ''t3'' [])) (Raised ClosedChannel)]"
  by (simp add: processRequestQueue_def deactivate_def proxy_defs concrete_defs)

text \<open>
  C7, amended. A push or update message is only queued by the message handler, which
  returns; and no path of a write proxy changes the transform log or the local store.
  When the before-listeners of a proxy raise \<open>e\<close>, it runs the failure event's
  listeners with the transform and \<open>e\<close> (settle-all); on an open channel it then posts
  an \<open>error\<close> message with the transform's id and \<open>e\<close> and returns normally. When
  the channel is absent or closed, so that a send raises \<open>e'\<close>, the failure event's
  listeners are still run (with \<open>e\<close>, or with \<open>e'\<close> when it is the \<open>success\<close> send
  that raised), no message is posted, and the proxy ends with \<open>e'\<close>.
\<close>

theorem write_proxy_failure:
  "fst (handleMessage (PushMessage t) s) = Returns Undefined
   \<and> fst (handleMessage (UpdateMessage t) s) = Returns Undefined
   \<and> transformLog (snd (proxyPush t s)) = transformLog s
   \<and> applied (snd (proxyPush t s)) = applied s
   \<and> transformLog (snd (proxyUpdate t s)) = transformLog s
   \<and> applied (snd (proxyUpdate t s)) = applied s
   \<and> (tid t \<notin> set (transformLog s) \<longrightarrow>
        (listeners s ''beforePush'' (OfTransform t) Undefined = Inl e \<longrightarrow>
           (channel s = Some c \<and> \<not> closed c \<longrightarrow>
              proxyPush t s =
                (Returns Undefined,
                 sent (ErrorMessage (tid t) e) c
                   (s\<lparr>emitted := emitted s @ [FulfillInSeries ''beforePush'' (OfTransform t),
                         SettleInSeries ''pushFail'' (OfTransform t) (Raised e)]\<rparr>)))
           \<and> (channelFault s = Some e' \<longrightarrow>
              proxyPush t s =
                (Throws e',
                 s\<lparr>emitted := emitted s @ [FulfillInSeries ''beforePush'' (OfTransform t),
                       SettleInSeries ''pushFail'' (OfTransform t) (Raised e)]\<rparr>)))
        \<and> (listeners s ''beforePush'' (OfTransform t) Undefined = Inr h
             \<and> channelFault s = Some e' \<longrightarrow>
              proxyPush t s =
                (Throws e',
                 s\<lparr>emitted := emitted s @ [FulfillInSeries ''beforePush'' (OfTransform t),
                       SettleInSeries ''proxyPush'' (OfTransform t) (Result EmptyList),
                       SettleInSeries ''pushFail'' (OfTransform t) (Raised e')]\<rparr>))
        \<and> (listeners s ''beforeUpdate'' (OfTransform t) Undefined = Inl e \<longrightarrow>
           (channel s = Some c \<and> \<not> closed c \<longrightarrow>
              proxyUpdate t s =
                (Returns Undefined,
                 sent (ErrorMessage (tid t) e) c
                   (s\<lparr>emitted := emitted s @ [FulfillInSeries ''beforeUpdate'' (OfTransform t),
                         SettleInSeries ''updateFail'' (OfTransform t) (Raised e)]\<rparr>)))
           \<and> (channelFault s = Some e' \<longrightarrow>
              proxyUpdate t s =
                (Throws e',
                 s\<lparr>emitted := emitted s @ [FulfillInSeries ''beforeUpdate'' (OfTransform t),
                       SettleInSeries ''updateFail'' (OfTransform t) (Raised e)]\<rparr>)))
        \<and> (listeners s ''beforeUpdate'' (OfTransform t) Undefined = Inr h
             \<and> channelFault s = Some e' \<longrightarrow>
              proxyUpdate t s =
                (Throws e',
                 s\<lparr>emitted := emitted s @ [FulfillInSeries ''beforeUpdate'' (OfTransform t),
                       SettleInSeries ''proxyUpdate'' (OfTransform t) (Result h),
                       SettleInSeries ''updateFail'' (OfTransform t) (Raised e')]\<rparr>)))"
proof -
  have fault: "postMessage m s' = Inl e'"
    if "channelFault s = Some e'" "channel s' = channel s" for m s'
    using that postMessage_fault [of s' e' m] by (simp add: channelFault_def)
  have open_push: "proxyPush t s =
                (Returns Undefined,
                 sent (ErrorMessage (tid t) e) c
                   (s\<lparr>emitted := emitted s @ [FulfillInSeries ''beforePush'' (OfTransform t),
                         SettleInSeries ''pushFail'' (OfTransform t) (Raised e)]\<rparr>))"
    if "tid t \<notin> set (transformLog s)" "listeners s ''beforePush'' (OfTransform t) Undefined = Inl e"
      "channel s = Some c" "\<not> closed c"
    using that by (simp add: proxy_defs sent_def)
  have open_update: "proxyUpdate t s =
                (Returns Undefined,
                 sent (ErrorMessage (tid t) e) c
                   (s\<lparr>emitted := emitted s @ [FulfillInSeries ''beforeUpdate'' (OfTransform t),
                         SettleInSeries ''updateFail'' (OfTransform t) (Raised e)]\<rparr>))"
    if "tid t \<notin> set (transformLog s)" "listeners s ''beforeUpdate'' (OfTransform t) Undefined = Inl e"
      "channel s = Some c" "\<not> closed c"
    using that by (simp add: proxy_defs sent_def)
  have veto_push: "proxyPush t s =
                (Throws e',
                 s\<lparr>emitted := emitted s @ [FulfillInSeries ''beforePush'' (OfTransform t),
                       SettleInSeries ''pushFail'' (OfTransform t) (Raised e)]\<rparr>)"
    if "tid t \<notin> set (transformLog s)" "listeners s ''beforePush'' (OfTransform t) Undefined = Inl e"
      "channelFault s = Some e'"
    using that
    by (simp add: proxyPush_def catchError_def fulfillInSeries_def settleInSeries_def fault)
  have veto_update: "proxyUpdate t s =
                (Throws e',
                 s\<lparr>emitted := emitted s @ [FulfillInSeries ''beforeUpdate'' (OfTransform t),
                       SettleInSeries ''updateFail'' (OfTransform t) (Raised e)]\<rparr>)"
    if "tid t \<notin> set (transformLog s)" "listeners s ''beforeUpdate'' (OfTransform t) Undefined = Inl e"
      "channelFault s = Some e'"
    using that
    by (simp add: proxyUpdate_def catchError_def fulfillInSeries_def settleInSeries_def fault)
  have send_push: "proxyPush t s =
                (Throws e',
                 s\<lparr>emitted := emitted s @ [FulfillInSeries ''beforePush'' (OfTransform t),
                       SettleInSeries ''proxyPush'' (OfTransform t) (Result EmptyList),
                       SettleInSeries ''pushFail'' (OfTransform t) (Raised e')]\<rparr>)"
    if "tid t \<notin> set (transformLog s)" "listeners s ''beforePush'' (OfTransform t) Undefined = Inr h"
      "channelFault s = Some e'"
    using that
    by (simp add: proxyPush_def catchError_def fulfillInSeries_def settleInSeries_def fault)
  have send_update: "proxyUpdate t s =
                (Throws e',
                 s\<lparr>emitted := emitted s @ [FulfillInSeries ''beforeUpdate'' (OfTransform t),
                       SettleInSeries ''proxyUpdate'' (OfTransform t) (Result h),
                       SettleInSeries ''updateFail'' (OfTransform t) (Raised e')]\<rparr>)"
    if "tid t \<notin> set (transformLog s)" "listeners s ''beforeUpdate'' (OfTransform t) Undefined = Inr h"
      "channelFault s = Some e'"
    using that
    by (simp add: proxyUpdate_def catchError_def fulfillInSeries_def settleInSeries_def fault)
  have queued: "fst (handleMessage (PushMessage t) s) = Returns Undefined
      \<and> fst (handleMessage (UpdateMessage t) s) = Returns Undefined"
    by simp
  show ?thesis
    using queued proxy_log [of t s] open_push open_update veto_push veto_update
      send_push send_update
    by blast
qed

theorem write_proxy_failure_witness:
  "proxyPush (Transform ''t3'' []) vetoing
     = (Returns Undefined,
        vetoing\<lparr>emitted := [FulfillInSeries ''beforePush'' (OfTransform (Transform ''t3'' [])),
            SettleInSeries ''pushFail'' (OfTransform (Transform ''t3'' []))
              (Raised (Failure ''ValidationFailed''))],
          channel := Some \<lparr>name = ''orbit'', closed = False,
            posted = [ErrorMessage ''t3'' (Failure ''ValidationFailed'')]\<rparr>\<rparr>)
   \<and> transformLog (snd (proxyUpdate (Transform ''t3'' []) vetoing)) = []
   \<and> fst (proxyUpdate (Transform ''t3'' []) vetoing) = Returns Undefined
   \<and> map_option posted (channel (snd (proxyUpdate (Transform ''t3'' []) vetoing)))
        = Some [ErrorMessage ''t3'' (Failure ''ValidationFailed'')]
   \<and> channelFault (snd (deactivate ready)) = Some ClosedChannel
   \<and> fst (proxyUpdate (Transform ''t3'' []) (snd (deactivate ready))) = Throws ClosedChannel
   \<and> emitted (snd (proxyUpdate (Transform ''t3'' []) (snd (deactivate ready))))
        = [FulfillInSeries ''beforeUpdate'' (OfTransform (Transform ''t3'' [])),
           SettleInSeries ''proxyUpdate'' (OfTransform (Transform ''t3'' [])) (Result Undefined),
           SettleInSeries ''updateFail'' (OfTransform (Transform ''t3'' [])) (Raised ClosedChannel)]
   \<and> fst (proxyPush (Transform ''t3'' []) (snd (deactivate vetoing))) = Throws ClosedChannel"
  using write_proxy_failure [of "Transform ''t3'' []" vetoing "Failure ''ValidationFailed''"
      "\<lparr>name = ''orbit'', closed = False, posted = []\<rparr>" TypeError Undefined]
    write_proxy_failure [of "Transform ''t3'' []" "snd (deactivate ready)" "Failure ''x''"
      "\<lparr>name = ''orbit'', closed = True, posted = []\<rparr>" ClosedChannel Undefined]
    write_proxy_failure [of "Transform ''t3'' []" "snd (deactivate vetoing)"
      "Failure ''ValidationFailed''"
      "\<lparr>name = ''orbit'', closed = True, posted = []\<rparr>" ClosedChannel Undefined]
  by (simp add: vetoing_def concrete_defs sent_def deactivate_def channelFault_def)

text \<open>
  C10. Neither write proxy ever changes the transform log or the local store. A proxy
  that succeeds (transform not in the log, channel open, before-listeners not raising)
  runs its two listener chains and posts the \<open>success\<close> reply, and nothing else; run
  again on the same transform it does not take the replay branch but runs both chains
  and posts the reply a second time.
\<close>

theorem write_proxy_never_logs:
  "transformLog (snd (proxyPush t s)) = transformLog s
   \<and> applied (snd (proxyPush t s)) = applied s
   \<and> transformLog (snd (proxyUpdate t s)) = transformLog s
   \<and> applied (snd (proxyUpdate t s)) = applied s
   \<and> (tid t \<notin> set (transformLog s) \<and> channel s = Some c \<and> \<not> closed c \<longrightarrow>
        (listeners s ''beforePush'' (OfTransform t) Undefined = Inr h \<longrightarrow>
           proxyPush t s =
             (Returns EmptyList,
              sent (SuccessMessage (tid t) Undefined) c
                (s\<lparr>emitted := emitted s @ [FulfillInSeries ''beforePush'' (OfTransform t),
                      SettleInSeries ''proxyPush'' (OfTransform t) (Result EmptyList)]\<rparr>))
           \<and> emitted (snd (proxyPush t (snd (proxyPush t s)))) =
               emitted s @ [FulfillInSeries ''beforePush'' (OfTransform t),
                 SettleInSeries ''proxyPush'' (OfTransform t) (Result EmptyList),
                 FulfillInSeries ''beforePush'' (OfTransform t),
                 SettleInSeries ''proxyPush'' (OfTransform t) (Result EmptyList)]
           \<and> map_option posted (channel (snd (proxyPush t (snd (proxyPush t s))))) =
               Some (posted c @ [SuccessMessage (tid t) Undefined, SuccessMessage (tid t) Undefined]))
        \<and> (listeners s ''beforeUpdate'' (OfTransform t) Undefined = Inr h \<longrightarrow>
           proxyUpdate t s =
             (Returns h,
              sent (SuccessMessage (tid t) h) c
                (s\<lparr>emitted := emitted s @ [FulfillInSeries ''beforeUpdate'' (OfTransform t),
                      SettleInSeries ''proxyUpdate'' (OfTransform t) (Result h)]\<rparr>))
           \<and> emitted (snd (proxyUpdate t (snd (proxyUpdate t s)))) =
               emitted s @ [FulfillInSeries ''beforeUpdate'' (OfTransform t),
                 SettleInSeries ''proxyUpdate'' (OfTransform t) (Result h),
                 FulfillInSeries ''beforeUpdate'' (OfTransform t),
                 SettleInSeries ''proxyUpdate'' (OfTransform t) (Result h)]
           \<and> map_option posted (channel (snd (proxyUpdate t (snd (proxyUpdate t s))))) =
               Some (posted c @ [SuccessMessage (tid t) h, SuccessMessage (tid t) h])))"
proof -
  have push: "proxyPush t s =
             (Returns EmptyList,
              sent (SuccessMessage (tid t) Undefined) c
                (s\<lparr>emitted := emitted s @ [FulfillInSeries ''beforePush'' (OfTransform t),
                      SettleInSeries ''proxyPush'' (OfTransform t) (Result EmptyList)]\<rparr>))"
    if "tid t \<notin> set (transformLog s)" "channel s = Some c" "\<not> closed c"
      "listeners s ''beforePush'' (OfTransform t) Undefined = Inr h" for s c
    using that by (simp add: proxyPush_def catchError_def fulfillInSeries_def
        settleInSeries_def postMessage_def sent_def)
  have update: "proxyUpdate t s =
             (Returns h,
              sent (SuccessMessage (tid t) h) c
                (s\<lparr>emitted := emitted s @ [FulfillInSeries ''beforeUpdate'' (OfTransform t),
                      SettleInSeries ''proxyUpdate'' (OfTransform t) (Result h)]\<rparr>))"
    if "tid t \<notin> set (transformLog s)" "channel s = Some c" "\<not> closed c"
      "listeners s ''beforeUpdate'' (OfTransform t) Undefined = Inr h" for s c
    using that by (simp add: proxyUpdate_def catchError_def fulfillInSeries_def
        settleInSeries_def postMessage_def sent_def)
  have again_push: "emitted (snd (proxyPush t (snd (proxyPush t s)))) =
               emitted s @ [FulfillInSeries ''beforePush'' (OfTransform t),
                 SettleInSeries ''proxyPush'' (OfTransform t) (Result EmptyList),
                 FulfillInSeries ''beforePush'' (OfTransform t),
                 SettleInSeries ''proxyPush'' (OfTransform t) (Result EmptyList)]
           \<and> map_option posted (channel (snd (proxyPush t (snd (proxyPush t s))))) =
               Some (posted c @ [SuccessMessage (tid t) Undefined, SuccessMessage (tid t) Undefined])"
    if a: "tid t \<notin> set (transformLog s)" "channel s = Some c" "\<not> closed c"
      "listeners s ''beforePush'' (OfTransform t) Undefined = Inr h"
  proof -
    let ?s1 = "sent (SuccessMessage (tid t) Undefined) c
                (s\<lparr>emitted := emitted s @ [FulfillInSeries ''beforePush'' (OfTransform t),
                      SettleInSeries ''proxyPush'' (OfTransform t) (Result EmptyList)]\<rparr>)"
    let ?c1 = "c\<lparr>posted := posted c @ [SuccessMessage (tid t) Undefined]\<rparr>"
    have "proxyPush t ?s1 = (Returns EmptyList,
              sent (SuccessMessage (tid t) Undefined) ?c1
                (?s1\<lparr>emitted := emitted ?s1 @ [FulfillInSeries ''beforePush'' (OfTransform t),
                      SettleInSeries ''proxyPush'' (OfTransform t) (Result EmptyList)]\<rparr>))"
      using a by (intro push) (simp_all add: sent_def)
    then show ?thesis
      using push [OF a] by (simp add: sent_def)
  qed
  have again_update: "emitted (snd (proxyUpdate t (snd (proxyUpdate t s)))) =
               emitted s @ [FulfillInSeries ''beforeUpdate'' (OfTransform t),
                 SettleInSeries ''proxyUpdate'' (OfTransform t) (Result h),
                 FulfillInSeries ''beforeUpdate'' (OfTransform t),
                 SettleInSeries ''proxyUpdate'' (OfTransform t) (Result h)]
           \<and> map_option posted (channel (snd (proxyUpdate t (snd (proxyUpdate t s))))) =
               Some (posted c @ [SuccessMessage (tid t) h, SuccessMessage (tid t) h])"
    if a: "tid t \<notin> set (transformLog s)" "channel s = Some c" "\<not> closed c"
      "listeners s ''beforeUpdate'' (OfTransform t) Undefined = Inr h"
  proof -
    let ?s1 = "sent (SuccessMessage (tid t) h) c
                (s\<lparr>emitted := emitted s @ [FulfillInSeries ''beforeUpdate'' (OfTransform t),
                      SettleInSeries ''proxyUpdate'' (OfTransform t) (Result h)]\<rparr>)"
    let ?c1 = "c\<lparr>posted := posted c @ [SuccessMessage (tid t) h]\<rparr>"
    have "proxyUpdate t ?s1 = (Returns h,
              sent (SuccessMessage (tid t) h) ?c1
                (?s1\<lparr>emitted := emitted ?s1 @ [FulfillInSeries ''beforeUpdate'' (OfTransform t),
                      SettleInSeries ''proxyUpdate'' (OfTransform t) (Result h)]\<rparr>))"
      using a by (intro update) (simp_all add: sent_def)
    then show ?thesis
      using update [OF a] by (simp add: sent_def)
  qed
  show ?thesis
    using proxy_log [of t s] push [of s c] update [of s c] again_push again_update by blast
qed

theorem write_proxy_never_logs_witness:
  "proxyPush (Transform ''t1'' []) ready =
     (Returns EmptyList,
      ready\<lparr>emitted := [FulfillInSeries ''beforePush'' (OfTransform (Transform ''t1'' [])),
               SettleInSeries ''proxyPush'' (OfTransform (Transform ''t1'' [])) (Result EmptyList)],
            channel := Some \<lparr>name = ''orbit'', closed = False,
               posted = [SuccessMessage ''t1'' Undefined]\<rparr>\<rparr>)
   \<and> transformLog (snd (proxyPush (Transform ''t1'' []) ready)) = []
   \<and> map_option posted (channel (snd (proxyUpdate (Transform ''t1'' [])
         (snd (proxyUpdate (Transform ''t1'' []) ready)))))
       = Some [SuccessMessage ''t1'' Undefined, SuccessMessage ''t1'' Undefined]
   \<and> emitted (snd (proxyPush (Transform ''t1'' []) (snd (proxyPush (Transform ''t1'' []) ready))))
       = [FulfillInSeries ''beforePush'' (OfTransform (Transform ''t1'' [])),
          SettleInSeries ''proxyPush'' (OfTransform (Transform ''t1'' [])) (Result EmptyList),
          FulfillInSeries ''beforePush'' (OfTransform (Transform ''t1'' [])),
          SettleInSeries ''proxyPush'' (OfTransform (Transform ''t1'' [])) (Result EmptyList)]"
  using write_proxy_never_logs [of "Transform ''t1'' []" ready
      "\<lparr>name = ''orbit'', closed = False, posted = []\<rparr>" Undefined]
  by (simp add: concrete_defs sent_def proxyPush_def proxyUpdate_def fulfillInSeries_def
      settleInSeries_def postMessage_def)

subsection \<open>The table across all events\<close>

lemma table_inv_cong:
  "table_inv s \<Longrightarrow>
   requests s' = requests s \<and> promises s' = promises s \<and> settled s' = settled s \<Longrightarrow>
   table_inv s'"
  by (simp add: table_inv_def)

lemma once_inv_cong:
  "once_inv s \<Longrightarrow>
   requests s' = requests s \<and> sending s' = sending s \<and> settled s' = settled s \<Longrightarrow>
   once_inv s'"
  by (simp add: once_inv_def)

lemma postMessage_table:
  "postMessage m s = Inr s' \<Longrightarrow>
   requests s' = requests s \<and> promises s' = promises s \<and> settled s' = settled s
   \<and> sending s' = sending s"
  by (auto simp: postMessage_def split: option.splits if_splits)

lemma source_sync_table:
  "requests (snd (source_sync t s)) = requests s
   \<and> promises (snd (source_sync t s)) = promises s
   \<and> settled (snd (source_sync t s)) = settled s
   \<and> sending (snd (source_sync t s)) = sending s"
  by (auto simp: source_sync_def postMessage_def transformed_def split: sum.splits option.splits)

lemma catchError_table:
  "requests (snd (catchError ev p i e s)) = requests s
   \<and> promises (snd (catchError ev p i e s)) = promises s
   \<and> settled (snd (catchError ev p i e s)) = settled s
   \<and> sending (snd (catchError ev p i e s)) = sending s"
  by (simp add: catchError_def settleInSeries_def postMessage_def Let_def
      split: option.splits)

lemma proxyQuery_table:
  "requests (snd (proxyQuery q s)) = requests s
   \<and> promises (snd (proxyQuery q s)) = promises s
   \<and> settled (snd (proxyQuery q s)) = settled s
   \<and> sending (snd (proxyQuery q s)) = sending s"
  by (simp add: proxyQuery_def fulfillInSeries_def settleInSeries_def postMessage_def Let_def
      catchError_table split: sum.splits option.splits)

lemma proxyPull_table:
  "requests (snd (proxyPull q s)) = requests s
   \<and> promises (snd (proxyPull q s)) = promises s
   \<and> settled (snd (proxyPull q s)) = settled s
   \<and> sending (snd (proxyPull q s)) = sending s"
  by (simp add: proxyPull_def fulfillInSeries_def settleInSeries_def postMessage_def Let_def
      catchError_table split: sum.splits option.splits)

lemma proxyUpdate_table:
  "requests (snd (proxyUpdate t s)) = requests s
   \<and> promises (snd (proxyUpdate t s)) = promises s
   \<and> settled (snd (proxyUpdate t s)) = settled s
   \<and> sending (snd (proxyUpdate t s)) = sending s"
  by (simp add: proxyUpdate_def fulfillInSeries_def settleInSeries_def postMessage_def Let_def
      catchError_table split: sum.splits option.splits)

lemma proxyPush_table:
  "requests (snd (proxyPush t s)) = requests s
   \<and> promises (snd (proxyPush t s)) = promises s
   \<and> settled (snd (proxyPush t s)) = settled s
   \<and> sending (snd (proxyPush t s)) = sending s"
  by (simp add: proxyPush_def fulfillInSeries_def settleInSeries_def postMessage_def Let_def
      catchError_table split: sum.splits option.splits)

lemma perform_table:
  "requests (snd (perform task s)) = requests s
   \<and> promises (snd (perform task s)) = promises s
   \<and> settled (snd (perform task s)) = settled s
   \<and> sending (snd (perform task s)) = sending s"
  by (cases task) (simp_all add: proxyQuery_table proxyPull_table proxyUpdate_table proxyPush_table)

lemma processRequestQueue_table:
  "requests (processRequestQueue s) = requests s
   \<and> promises (processRequestQueue s) = promises s
   \<and> settled (processRequestQueue s) = settled s
   \<and> sending (processRequestQueue s) = sending s"
  by (cases "requestQueue s") (simp_all add: processRequestQueue_def perform_table)

lemma processSyncQueue_table:
  "requests (processSyncQueue s) = requests s
   \<and> promises (processSyncQueue s) = promises s
   \<and> settled (processSyncQueue s) = settled s
   \<and> sending (processSyncQueue s) = sending s"
  by (cases "syncQueue s") (simp_all add: processSyncQueue_def source_sync_table)

lemma deactivate_table:
  "requests (snd (deactivate s)) = requests s
   \<and> promises (snd (deactivate s)) = promises s
   \<and> settled (snd (deactivate s)) = settled s
   \<and> sending (snd (deactivate s)) = sending s"
  by (cases "channel s") (simp_all add: deactivate_def)

text \<open>An outbound call: the send, and the suspension on it.\<close>

lemma post_awaitSend_table:
  "requests (snd (case postMessage m s of Inl e \<Rightarrow> (Throws e, s)
                  | Inr s1 \<Rightarrow> awaitSend k i s1)) = requests s
   \<and> promises (snd (case postMessage m s of Inl e \<Rightarrow> (Throws e, s)
                  | Inr s1 \<Rightarrow> awaitSend k i s1)) = promises s
   \<and> settled (snd (case postMessage m s of Inl e \<Rightarrow> (Throws e, s)
                  | Inr s1 \<Rightarrow> awaitSend k i s1)) = settled s
   \<and> set (sending (snd (case postMessage m s of Inl e \<Rightarrow> (Throws e, s)
                  | Inr s1 \<Rightarrow> awaitSend k i s1))) \<subseteq> insert (k, i) (set (sending s))"
proof (cases "postMessage m s")
  case (Inl e)
  then show ?thesis by auto
next
  case (Inr s1)
  then show ?thesis using postMessage_table [OF Inr] by (auto simp: awaitSend_def)
qed

lemma call_table:
  assumes "ev = CallPush t \<or> ev = CallUpdate t \<or> ev = CallPull q \<or> ev = CallQuery q"
  shows "requests (fire ev s) = requests s \<and> promises (fire ev s) = promises s
     \<and> settled (fire ev s) = settled s
     \<and> (\<forall>x \<in> set (sending (fire ev s)). x \<in> set (sending s) \<or> callsUnder (snd x) ev)"
proof -
  consider "ev = CallPush t" | "ev = CallUpdate t" | "ev = CallPull q" | "ev = CallQuery q"
    using assms by blast
  then show ?thesis
  proof cases
    case 1
    show ?thesis
      using post_awaitSend_table [where m = "PushMessage t" and s = s and k = PushCaller and i = "tid t"]
      unfolding 1 by (auto simp: source_push_def)
  next
    case 2
    show ?thesis
      using post_awaitSend_table [where m = "UpdateMessage t" and s = s and k = UpdateCaller and i = "tid t"]
      unfolding 2 by (auto simp: source_update_def)
  next
    case 3
    show ?thesis
      using post_awaitSend_table [where m = "PullMessage q" and s = s and k = PullCaller and i = "qid q"]
      unfolding 3 by (auto simp: source_pull_def)
  next
    case 4
    show ?thesis
      using post_awaitSend_table [where m = "QueryMessage q" and s = s and k = QueryCaller and i = "qid q"]
      unfolding 4 by (auto simp: source_query_def)
  qed
qed

lemma table_inv_older:
  "table_inv s \<Longrightarrow> requests s i = Some r \<Longrightarrow> promise r < promises s"
  unfolding table_inv_def by blast

lemma table_inv_unsettled:
  "table_inv s \<Longrightarrow> requests s i = Some r \<Longrightarrow> i \<noteq> ''__proto__'' \<Longrightarrow>
   promise r \<notin> fst ` set (settled s)"
  unfolding table_inv_def by blast

lemma table_inv_inj:
  "table_inv s \<Longrightarrow> requests s i = Some r \<Longrightarrow> requests s j = Some r' \<Longrightarrow>
   promise r = promise r' \<Longrightarrow> i = j"
  unfolding table_inv_def by blast

lemma table_inv_bound:
  "table_inv s \<Longrightarrow> p \<in> fst ` set (settled s) \<Longrightarrow> p < promises s"
  unfolding table_inv_def by blast

lemma newRequest_inv:
  assumes inv: "table_inv s"
  shows "table_inv (snd (newRequest i k s))"
  unfolding table_inv_def
proof (intro conjI allI impI ballI)
  have fresh: "promises s \<notin> fst ` set (settled s)"
    using table_inv_bound [OF inv, of "promises s"] by auto
  have old: "(j = i \<and> promise r = promises s) \<or> (j \<noteq> i \<and> requests s j = Some r)"
    if "requests (snd (newRequest i k s)) j = Some r" for j r
    using that by (cases "j = i") (auto simp: newRequest_def)
  {
    fix j r assume j: "requests (snd (newRequest i k s)) j = Some r"
    from old [OF j] show "promise r < promises (snd (newRequest i k s))"
    proof
      assume "j = i \<and> promise r = promises s"
      then show ?thesis by (simp add: newRequest_def)
    next
      assume "j \<noteq> i \<and> requests s j = Some r"
      then have "promise r < promises s" using table_inv_older [OF inv] by blast
      then show ?thesis by (simp add: newRequest_def)
    qed
    assume key: "j \<noteq> ''__proto__''"
    from old [OF j] have "promise r \<notin> fst ` set (settled s)"
    proof
      assume "j = i \<and> promise r = promises s"
      then show ?thesis using fresh by simp
    next
      assume "j \<noteq> i \<and> requests s j = Some r"
      then show ?thesis using table_inv_unsettled [OF inv _ key] by blast
    qed
    then show "promise r \<notin> fst ` set (settled (snd (newRequest i k s)))"
      by (simp add: newRequest_def)
  next
    fix j l r r'
    assume a: "requests (snd (newRequest i k s)) j = Some r
       \<and> requests (snd (newRequest i k s)) l = Some r' \<and> promise r = promise r'"
    then have j: "(j = i \<and> promise r = promises s) \<or> (j \<noteq> i \<and> requests s j = Some r)"
      and l: "(l = i \<and> promise r' = promises s) \<or> (l \<noteq> i \<and> requests s l = Some r')"
      and eq: "promise r = promise r'"
      using old by blast+
    show "j = l"
    proof (cases "j = i")
      case True
      then have "promise r = promises s" using j by blast
      then have "promise r' = promises s" using eq by simp
      then have "\<not> (l \<noteq> i \<and> requests s l = Some r')"
        using table_inv_older [OF inv, of l r'] by auto
      then show ?thesis using l True by blast
    next
      case False
      then have jr: "requests s j = Some r" using j by blast
      then have "promise r < promises s" using table_inv_older [OF inv] by blast
      then have "promise r' \<noteq> promises s" using eq by simp
      then have "requests s l = Some r'" using l by blast
      then show ?thesis using table_inv_inj [OF inv jr _ eq] by blast
    qed
  next
    fix p assume "p \<in> fst ` set (settled (snd (newRequest i k s)))"
    then have "p \<in> fst ` set (settled s)" by (simp add: newRequest_def)
    then have "p < promises s" by (rule table_inv_bound [OF inv])
    then show "p < promises (snd (newRequest i k s))" by (simp add: newRequest_def)
  }
qed

lemma sendCompleted_inv:
  assumes "table_inv s"
  shows "table_inv (snd (sendCompleted n s))"
proof (cases "n < length (sending s)")
  case True
  have "table_inv (s\<lparr>sending := take n (sending s) @ drop (Suc n) (sending s)\<rparr>)"
    using assms by (rule table_inv_cong) simp
  then have "table_inv (snd (newRequest (snd (sending s ! n)) (fst (sending s ! n))
      (s\<lparr>sending := take n (sending s) @ drop (Suc n) (sending s)\<rparr>)))"
    by (rule newRequest_inv)
  then show ?thesis using True by (simp add: sendCompleted_def)
next
  case False
  then show ?thesis using assms by (simp add: sendCompleted_def)
qed

lemma route_inv:
  assumes inv: "table_inv s" and live: "requests s i = Some r"
  shows "table_inv (settle r x
      (s\<lparr>requests := deleteRequest i (requests s), history := history s @ [Deleted i]\<rparr>))"
    (is "table_inv ?s'")
  unfolding table_inv_def
proof (intro conjI allI impI ballI)
  have sub: "requests s j = Some r'" if "requests ?s' j = Some r'" for j r'
    using that by (cases "j = i") (auto simp: settle_def deleteRequest_def split: if_splits)
  have stl: "settled ?s' = settled s @ [(promise r, resume (caller r) x)]"
    by (simp add: settle_def)
  have prm: "promises ?s' = promises s"
    by (simp add: settle_def)
  {
    fix j r' assume j: "requests ?s' j = Some r'"
    show "promise r' < promises ?s'"
      using table_inv_older [OF inv sub [OF j]] prm by simp
    assume key: "j \<noteq> ''__proto__''"
    have "j \<noteq> i"
    proof
      assume "j = i"
      then have "requests ?s' j = None"
        using key by (simp add: settle_def deleteRequest_def)
      then show False using j by simp
    qed
    then have "promise r' \<noteq> promise r"
      using table_inv_inj [OF inv sub [OF j] live] by blast
    moreover have "promise r' \<notin> fst ` set (settled s)"
      using table_inv_unsettled [OF inv sub [OF j] key] .
    ultimately show "promise r' \<notin> fst ` set (settled ?s')"
      unfolding stl by simp
  next
    fix j l r1 r2
    assume "requests ?s' j = Some r1 \<and> requests ?s' l = Some r2 \<and> promise r1 = promise r2"
    then have "requests s j = Some r1" "requests s l = Some r2" "promise r1 = promise r2"
      using sub by blast+
    then show "j = l" by (rule table_inv_inj [OF inv])
  next
    fix p assume "p \<in> fst ` set (settled ?s')"
    then have "p = promise r \<or> p \<in> fst ` set (settled s)"
      unfolding stl by auto
    then have "p < promises s"
      using table_inv_older [OF inv live] table_inv_bound [OF inv, of p] by blast
    then show "p < promises ?s'" using prm by simp
  }
qed

lemma handleMessage_inv:
  assumes "table_inv s"
  shows "table_inv (snd (handleMessage m s))"
proof (cases m)
  case (SuccessMessage i v)
  then show ?thesis using assms
    by (cases "requests s i") (simp_all add: resolveRequest_def route_inv)
next
  case (ErrorMessage i e)
  then show ?thesis using assms
    by (cases "requests s i") (simp_all add: rejectRequest_def route_inv)
qed (use assms in \<open>simp_all add: table_inv_def\<close>)

lemma call_inv:
  assumes "table_inv s"
    and "ev = CallPush t \<or> ev = CallUpdate t \<or> ev = CallPull q \<or> ev = CallQuery q"
  shows "table_inv (fire ev s)"
  using assms(1)
proof (rule table_inv_cong)
  show "requests (fire ev s) = requests s \<and> promises (fire ev s) = promises s
      \<and> settled (fire ev s) = settled s"
    using call_table [OF assms(2), of s] by blast
qed

lemma fire_inv:
  assumes "table_inv s"
  shows "table_inv (fire ev s)"
proof (cases ev)
  case (CallPush t)
  then show ?thesis using call_inv [OF assms, of ev t] by blast
next
  case (CallUpdate t)
  then show ?thesis using call_inv [OF assms, of ev t] by blast
next
  case (CallPull q)
  then show ?thesis using call_inv [OF assms, of ev _ q] by blast
next
  case (CallQuery q)
  then show ?thesis using call_inv [OF assms, of ev _ q] by blast
next
  case (CallSync t)
  have "table_inv (snd (source_sync t s))"
    using assms by (rule table_inv_cong) (simp add: source_sync_table)
  then show ?thesis using CallSync by simp
next
  case (SendCompleted n)
  then show ?thesis using assms by (simp add: sendCompleted_inv)
next
  case (Receive m)
  then show ?thesis using assms by (simp add: handleMessage_inv)
next
  case ProcessRequest
  have "table_inv (processRequestQueue s)"
    using assms by (rule table_inv_cong) (simp add: processRequestQueue_table)
  then show ?thesis using ProcessRequest by simp
next
  case ProcessSync
  have "table_inv (processSyncQueue s)"
    using assms by (rule table_inv_cong) (simp add: processSyncQueue_table)
  then show ?thesis using ProcessSync by simp
next
  case Activate
  then show ?thesis using assms by (simp add: activate_def table_inv_def)
next
  case Deactivate
  have "table_inv (snd (deactivate s))"
    using assms by (rule table_inv_cong) (simp add: deactivate_table)
  then show ?thesis using Deactivate by simp
qed

lemma run_inv: "table_inv s \<Longrightarrow> table_inv (run evs s)"
  unfolding run_def by (induction evs arbitrary: s) (simp_all add: fire_inv)

lemma constructor_inv: "table_inv (constructor cfg)"
  by (simp add: table_inv_def constructor_def)

lemma table_inv_run: "table_inv (run evs (constructor cfg))"
  by (rule run_inv [OF constructor_inv])

lemma call_once:
  assumes once: "once_inv s"
    and ev: "ev = CallPush t \<or> ev = CallUpdate t \<or> ev = CallPull q \<or> ev = CallQuery q"
    and free: "\<not> callsUnder ''__proto__'' ev"
  shows "once_inv (fire ev s)"
proof -
  note tab = call_table [OF ev, of s]
  have "''__proto__'' \<notin> snd ` set (sending (fire ev s))"
  proof
    assume "''__proto__'' \<in> snd ` set (sending (fire ev s))"
    then obtain x where x: "x \<in> set (sending (fire ev s))" "snd x = ''__proto__''"
      by auto
    then have "x \<in> set (sending s) \<or> callsUnder (snd x) ev"
      using tab by blast
    then have "x \<in> set (sending s)" using free x by auto
    then show False using once x unfolding once_inv_def by force
  qed
  then show ?thesis
    using once tab unfolding once_inv_def by simp
qed

lemma sendCompleted_once:
  assumes once: "once_inv s"
  shows "once_inv (snd (sendCompleted n s))"
proof (cases "n < length (sending s)")
  case True
  then have mem: "sending s ! n \<in> set (sending s)" by simp
  have key: "snd (sending s ! n) \<noteq> ''__proto__''"
  proof
    assume "snd (sending s ! n) = ''__proto__''"
    then have "''__proto__'' \<in> snd ` set (sending s)" using mem by force
    then show False using once unfolding once_inv_def by blast
  qed
  have sub: "set (take n (sending s) @ drop (Suc n) (sending s)) \<subseteq> set (sending s)"
    using set_take_subset [of n "sending s"] set_drop_subset [of "Suc n" "sending s"] by auto
  have "''__proto__'' \<notin> snd ` set (take n (sending s) @ drop (Suc n) (sending s))"
    using once sub unfolding once_inv_def by blast
  then show ?thesis
    using True once key unfolding once_inv_def
    by (simp add: sendCompleted_def newRequest_def)
next
  case False
  then show ?thesis using once by (simp add: sendCompleted_def)
qed

lemma route_once:
  assumes inv: "table_inv s" and once: "once_inv s" and live: "requests s i = Some r"
  shows "once_inv (settle r x
      (s\<lparr>requests := deleteRequest i (requests s), history := history s @ [Deleted i]\<rparr>))"
proof -
  have key: "i \<noteq> ''__proto__''"
    using once live unfolding once_inv_def by auto
  have "promise r \<notin> fst ` set (settled s)"
    by (rule table_inv_unsettled [OF inv live key])
  then show ?thesis
    using once key unfolding once_inv_def
    by (simp add: settle_def deleteRequest_def)
qed

lemma handleMessage_once:
  assumes "table_inv s" and "once_inv s"
  shows "once_inv (snd (handleMessage m s))"
proof (cases m)
  case (SuccessMessage i v)
  then show ?thesis using assms
    by (cases "requests s i") (simp_all add: resolveRequest_def route_once)
next
  case (ErrorMessage i e)
  then show ?thesis using assms
    by (cases "requests s i") (simp_all add: rejectRequest_def route_once)
qed (use assms in \<open>simp_all add: once_inv_def\<close>)

lemma fire_once:
  assumes inv: "table_inv s" and once: "once_inv s" and free: "\<not> callsUnder ''__proto__'' ev"
  shows "once_inv (fire ev s)"
proof (cases ev)
  case (CallPush t)
  then show ?thesis using call_once [OF once _ free, of t] by blast
next
  case (CallUpdate t)
  then show ?thesis using call_once [OF once _ free, of t] by blast
next
  case (CallPull q)
  then show ?thesis using call_once [OF once _ free, of _ q] by blast
next
  case (CallQuery q)
  then show ?thesis using call_once [OF once _ free, of _ q] by blast
next
  case (CallSync t)
  have "once_inv (snd (source_sync t s))"
    using once by (rule once_inv_cong) (simp add: source_sync_table)
  then show ?thesis using CallSync by simp
next
  case (SendCompleted n)
  then show ?thesis using once by (simp add: sendCompleted_once)
next
  case (Receive m)
  then show ?thesis using inv once by (simp add: handleMessage_once)
next
  case ProcessRequest
  have "once_inv (processRequestQueue s)"
    using once by (rule once_inv_cong) (simp add: processRequestQueue_table)
  then show ?thesis using ProcessRequest by simp
next
  case ProcessSync
  have "once_inv (processSyncQueue s)"
    using once by (rule once_inv_cong) (simp add: processSyncQueue_table)
  then show ?thesis using ProcessSync by simp
next
  case Activate
  then show ?thesis using once by (simp add: activate_def once_inv_def)
next
  case Deactivate
  have "once_inv (snd (deactivate s))"
    using once by (rule once_inv_cong) (simp add: deactivate_table)
  then show ?thesis using Deactivate by simp
qed

lemma run_once:
  "table_inv s \<Longrightarrow> once_inv s \<Longrightarrow> protoFree evs \<Longrightarrow> once_inv (run evs s)"
  unfolding run_def protoFree_def
proof (induction evs arbitrary: s)
  case Nil
  then show ?case by simp
next
  case (Cons ev evs)
  have "table_inv (fire ev s)" using Cons.prems(1) by (rule fire_inv)
  moreover have "once_inv (fire ev s)"
    using Cons.prems by (intro fire_once) simp_all
  moreover have "list_all (\<lambda>ev. \<not> callsUnder ''__proto__'' ev) evs"
    using Cons.prems(3) by simp
  ultimately have "once_inv (fold fire evs (fire ev s))" by (rule Cons.IH)
  then show ?case by simp
qed

lemma constructor_once: "once_inv (constructor cfg)"
  by (simp add: once_inv_def constructor_def)

lemma once_inv_run: "protoFree evs \<Longrightarrow> once_inv (run evs (constructor cfg))"
  by (rule run_once [OF constructor_inv constructor_once])

lemma sendCompleted_other:
  "\<not> correlates s i (SendCompleted n) \<Longrightarrow> requests (snd (sendCompleted n s)) i = requests s i"
  by (cases "n < length (sending s)") (auto simp: sendCompleted_def newRequest_def)

lemma handleMessage_other:
  assumes "\<not> correlates s i (Receive m)"
  shows "requests (snd (handleMessage m s)) i = requests s i"
proof (cases m)
  case (SuccessMessage j v)
  with assms have "j \<noteq> i" by simp
  then show ?thesis using SuccessMessage
    by (cases "requests s j") (simp_all add: resolveRequest_def settle_def deleteRequest_def)
next
  case (ErrorMessage j e)
  with assms have "j \<noteq> i" by simp
  then show ?thesis using ErrorMessage
    by (cases "requests s j") (simp_all add: rejectRequest_def settle_def deleteRequest_def)
qed simp_all

lemma fire_other:
  assumes "\<not> correlates s i ev"
  shows "requests (fire ev s) i = requests s i"
proof (cases ev)
  case (CallPush t)
  then show ?thesis using call_table [of ev t _ s] by simp
next
  case (CallUpdate t)
  then show ?thesis using call_table [of ev t _ s] by simp
next
  case (CallPull q)
  then show ?thesis using call_table [of ev _ q s] by simp
next
  case (CallQuery q)
  then show ?thesis using call_table [of ev _ q s] by simp
next
  case (CallSync t)
  then show ?thesis by (simp add: source_sync_table)
next
  case (SendCompleted n)
  then show ?thesis using assms by (simp add: sendCompleted_other)
next
  case (Receive m)
  then show ?thesis using assms by (simp add: handleMessage_other)
next
  case ProcessRequest
  then show ?thesis by (simp add: processRequestQueue_table)
next
  case ProcessSync
  then show ?thesis by (simp add: processSyncQueue_table)
next
  case Activate
  then show ?thesis by (simp add: activate_def)
next
  case Deactivate
  then show ?thesis by (simp add: deactivate_table)
qed

lemma fire_live:
  assumes live: "requests s i = Some r"
    and noreply: "\<forall>v. ev \<noteq> Receive (SuccessMessage i v)" "\<forall>e. ev \<noteq> Receive (ErrorMessage i e)"
  shows "\<exists>r'. requests (fire ev s) i = Some r'"
proof (cases "correlates s i ev")
  case False
  then show ?thesis using live by (simp add: fire_other)
next
  case True
  show ?thesis
  proof (cases ev)
    case (SendCompleted n)
    with True show ?thesis by (simp add: sendCompleted_def newRequest_def)
  next
    case (Receive m)
    with True noreply show ?thesis by (cases m) auto
  qed (use True in simp_all)
qed

subsection \<open>The correlation table\<close>

text \<open>
  C8, as stated, fails. The resolver is stored only when the awaited send has
  completed: after the call the \<open>update\<close> message is out and the table has no entry
  for its id, so a reply handled at that moment throws and the caller, once registered,
  is left waiting. And under the id \<open>__proto__\<close> the \<open>delete\<close> removes nothing: the
  entry outlives its reply, and a second reply calls the same resolver again.
\<close>

theorem correlation_table_counterexample:
  "map_option posted (channel (fire (CallUpdate (Transform ''t1'' [])) ready))
     = Some [UpdateMessage (Transform ''t1'' [])]
   \<and> requests (fire (CallUpdate (Transform ''t1'' [])) ready) ''t1'' = None
   \<and> handleMessage (SuccessMessage ''t1'' Undefined) (fire (CallUpdate (Transform ''t1'' [])) ready)
       = (Throws TypeError, fire (CallUpdate (Transform ''t1'' [])) ready)
   \<and> requests (run [Activate, CallUpdate (Transform ''t1'' []),
         Receive (SuccessMessage ''t1'' Undefined), SendCompleted 0] (constructor quiet)) ''t1''
       = Some \<lparr>promise = 0, caller = UpdateCaller\<rparr>
   \<and> settled (run [Activate, CallUpdate (Transform ''t1'' []),
         Receive (SuccessMessage ''t1'' Undefined), SendCompleted 0] (constructor quiet)) = []
   \<and> requests (run [Activate, CallUpdate (Transform ''__proto__'' []), SendCompleted 0,
         Receive (SuccessMessage ''__proto__'' Undefined)] (constructor quiet)) ''__proto__''
       = Some \<lparr>promise = 0, caller = UpdateCaller\<rparr>
   \<and> settled (run [Activate, CallUpdate (Transform ''__proto__'' []), SendCompleted 0,
         Receive (SuccessMessage ''__proto__'' Undefined),
         Receive (ErrorMessage ''__proto__'' (Failure ''late''))] (constructor quiet))
       = [(0, Fulfilled Undefined), (0, Rejected (Failure ''late''))]"
  by (simp add: run_def concrete_defs source_update_def postMessage_def awaitSend_def
      sendCompleted_def newRequest_def resolveRequest_def rejectRequest_def settle_def
      deleteRequest_def)

text \<open>
  C8, amended. In every state the source can reach, each pending resolver belongs to a
  promise that was created, different ids hold different promises, and under any id but
  \<open>__proto__\<close> that promise has had no resolver call; in runs that make no request under
  \<open>__proto__\<close> no promise has a second resolver call. The table is a map, so an id has
  at most one entry. An outbound request that is sent is suspended on the send and
  leaves the table as it was; the entry is stored when that send has completed. No
  event but such a completed send or a reply carrying the id changes the entry, and an
  id that has an entry keeps one through every event that is not a reply carrying it.
  Routing a reply under an id other than \<open>__proto__\<close> deletes the entry and then calls
  the resolver, in that order.
\<close>

theorem correlation_table_lifecycle:
  "table_inv (run evs (constructor cfg))
   \<and> (protoFree evs \<longrightarrow>
        once_inv (run evs (constructor cfg))
        \<and> distinct (map fst (settled (run evs (constructor cfg)))))
   \<and> (channel s = Some c \<and> \<not> closed c \<longrightarrow>
        fire (CallPull q) s
          = (sent (PullMessage q) c s)\<lparr>sending := sending s @ [(PullCaller, qid q)]\<rparr>
        \<and> fire (CallQuery q) s
          = (sent (QueryMessage q) c s)\<lparr>sending := sending s @ [(QueryCaller, qid q)]\<rparr>
        \<and> (tid t \<notin> set (transformLog s) \<longrightarrow>
             fire (CallPush t) s
               = (sent (PushMessage t) c s)\<lparr>sending := sending s @ [(PushCaller, tid t)]\<rparr>
             \<and> fire (CallUpdate t) s
               = (sent (UpdateMessage t) c s)\<lparr>sending := sending s @ [(UpdateCaller, tid t)]\<rparr>))
   \<and> (n < length (sending s) \<longrightarrow>
        requests (fire (SendCompleted n) s) (snd (sending s ! n))
          = Some \<lparr>promise = promises s, caller = fst (sending s ! n)\<rparr>
        \<and> sending (fire (SendCompleted n) s) = take n (sending s) @ drop (Suc n) (sending s))
   \<and> (\<not> correlates s i ev \<longrightarrow> requests (fire ev s) i = requests s i)
   \<and> (requests s i = Some r
        \<and> (\<forall>v. ev \<noteq> Receive (SuccessMessage i v)) \<and> (\<forall>e. ev \<noteq> Receive (ErrorMessage i e))
        \<longrightarrow> (\<exists>r'. requests (fire ev s) i = Some r'))
   \<and> (i \<noteq> ''__proto__'' \<and> requests s i = Some r \<longrightarrow>
        fire (Receive (SuccessMessage i v)) s
          = settle r (Fulfilled v)
              (s\<lparr>requests := (requests s)(i := None), history := history s @ [Deleted i]\<rparr>)
        \<and> fire (Receive (ErrorMessage i e)) s
          = settle r (Rejected e)
              (s\<lparr>requests := (requests s)(i := None), history := history s @ [Deleted i]\<rparr>)
        \<and> requests (fire (Receive (SuccessMessage i v)) s) i = None
        \<and> requests (fire (Receive (ErrorMessage i e)) s) i = None
        \<and> history (fire (Receive (SuccessMessage i v)) s)
          = history s @ [Deleted i, Called (promise r)]
        \<and> history (fire (Receive (ErrorMessage i e)) s)
          = history s @ [Deleted i, Called (promise r)])"
proof -
  have inv: "table_inv (run evs (constructor cfg))"
    by (rule table_inv_run)
  have once: "protoFree evs \<longrightarrow>
        once_inv (run evs (constructor cfg))
        \<and> distinct (map fst (settled (run evs (constructor cfg))))"
    using once_inv_run [of evs cfg] by (simp add: once_inv_def)
  have called: "channel s = Some c \<and> \<not> closed c \<longrightarrow>
        fire (CallPull q) s
          = (sent (PullMessage q) c s)\<lparr>sending := sending s @ [(PullCaller, qid q)]\<rparr>
        \<and> fire (CallQuery q) s
          = (sent (QueryMessage q) c s)\<lparr>sending := sending s @ [(QueryCaller, qid q)]\<rparr>
        \<and> (tid t \<notin> set (transformLog s) \<longrightarrow>
             fire (CallPush t) s
               = (sent (PushMessage t) c s)\<lparr>sending := sending s @ [(PushCaller, tid t)]\<rparr>
             \<and> fire (CallUpdate t) s
               = (sent (UpdateMessage t) c s)\<lparr>sending := sending s @ [(UpdateCaller, tid t)]\<rparr>)"
    by (simp add: source_pull_def source_query_def source_push_def source_update_def
        postMessage_open awaitSend_def sent_def)
  have stored: "n < length (sending s) \<longrightarrow>
        requests (fire (SendCompleted n) s) (snd (sending s ! n))
          = Some \<lparr>promise = promises s, caller = fst (sending s ! n)\<rparr>
        \<and> sending (fire (SendCompleted n) s) = take n (sending s) @ drop (Suc n) (sending s)"
    by (simp add: sendCompleted_def newRequest_def)
  have kept: "\<not> correlates s i ev \<longrightarrow> requests (fire ev s) i = requests s i"
    by (simp add: fire_other)
  have stays: "requests s i = Some r
        \<and> (\<forall>v. ev \<noteq> Receive (SuccessMessage i v)) \<and> (\<forall>e. ev \<noteq> Receive (ErrorMessage i e))
        \<longrightarrow> (\<exists>r'. requests (fire ev s) i = Some r')"
    using fire_live [of s i r ev] by blast
  have routed: "i \<noteq> ''__proto__'' \<and> requests s i = Some r \<longrightarrow>
        fire (Receive (SuccessMessage i v)) s
          = settle r (Fulfilled v)
              (s\<lparr>requests := (requests s)(i := None), history := history s @ [Deleted i]\<rparr>)
        \<and> fire (Receive (ErrorMessage i e)) s
          = settle r (Rejected e)
              (s\<lparr>requests := (requests s)(i := None), history := history s @ [Deleted i]\<rparr>)
        \<and> requests (fire (Receive (SuccessMessage i v)) s) i = None
        \<and> requests (fire (Receive (ErrorMessage i e)) s) i = None
        \<and> history (fire (Receive (SuccessMessage i v)) s)
          = history s @ [Deleted i, Called (promise r)]
        \<and> history (fire (Receive (ErrorMessage i e)) s)
          = history s @ [Deleted i, Called (promise r)]"
    by (simp add: resolveRequest_def rejectRequest_def settle_def deleteRequest_def)
  from inv once called stored kept stays routed show ?thesis by blast
qed

theorem correlation_table_lifecycle_witness:
  "protoFree [Activate, CallUpdate (Transform ''t1'' []), SendCompleted 0,
       Receive (SuccessMessage ''t1'' (Data ''r''))]
   \<and> table_inv (run [Activate, CallUpdate (Transform ''t1'' []), SendCompleted 0,
       Receive (SuccessMessage ''t1'' (Data ''r''))] (constructor quiet))
   \<and> distinct (map fst (settled (run [Activate, CallUpdate (Transform ''t1'' []), SendCompleted 0,
       Receive (SuccessMessage ''t1'' (Data ''r''))] (constructor quiet))))
   \<and> sending (fire (CallUpdate (Transform ''t1'' [])) ready) = [(UpdateCaller, ''t1'')]
   \<and> requests (fire (CallUpdate (Transform ''t1'' [])) ready) ''t1'' = None
   \<and> requests (fire (SendCompleted 0) (fire (CallUpdate (Transform ''t1'' [])) ready)) ''t1''
       = Some \<lparr>promise = 0, caller = UpdateCaller\<rparr>
   \<and> requests (fire (Receive (SuccessMessage ''t2'' Undefined))
         (fire (SendCompleted 0) (fire (CallUpdate (Transform ''t1'' [])) ready))) ''t1''
       = Some \<lparr>promise = 0, caller = UpdateCaller\<rparr>
   \<and> requests (fire (Receive (SuccessMessage ''t1'' (Data ''r'')))
         (fire (SendCompleted 0) (fire (CallUpdate (Transform ''t1'' [])) ready))) ''t1'' = None
   \<and> settled (fire (Receive (SuccessMessage ''t1'' (Data ''r'')))
         (fire (SendCompleted 0) (fire (CallUpdate (Transform ''t1'' [])) ready)))
       = [(0, Fulfilled (Data ''r''))]
   \<and> history (fire (Receive (SuccessMessage ''t1'' (Data ''r'')))
         (fire (SendCompleted 0) (fire (CallUpdate (Transform ''t1'' [])) ready)))
       = [Stored ''t1'' 0, Deleted ''t1'', Called 0]"
  using correlation_table_lifecycle [where evs = "[Activate, CallUpdate (Transform ''t1'' []),
       SendCompleted 0, Receive (SuccessMessage ''t1'' (Data ''r''))]" and cfg = quiet
       and s = ready and c = "\<lparr>name = ''orbit'', closed = False, posted = []\<rparr>"
       and t = "Transform ''t1'' []" and q = "Query ''q1'' ''a''" and i = "''t1''"
       and n = 0 and ev = "CallUpdate (Transform ''t1'' [])"
       and r = "\<lparr>promise = 0, caller = UpdateCaller\<rparr>"
       and v = Undefined and e = TypeError]
    correlation_table_lifecycle [where evs = "[]" and cfg = quiet
       and s = "fire (CallUpdate (Transform ''t1'' [])) ready"
       and c = "\<lparr>name = ''orbit'', closed = False, posted = [UpdateMessage (Transform ''t1'' [])]\<rparr>"
       and t = "Transform ''t1'' []" and q = "Query ''q1'' ''a''" and i = "''t1''"
       and n = 0 and ev = "Activate"
       and r = "\<lparr>promise = 0, caller = UpdateCaller\<rparr>"
       and v = Undefined and e = TypeError]
    correlation_table_lifecycle [where evs = "[]" and cfg = quiet
       and s = "fire (SendCompleted 0) (fire (CallUpdate (Transform ''t1'' [])) ready)"
       and c = "\<lparr>name = ''orbit'', closed = False, posted = [UpdateMessage (Transform ''t1'' [])]\<rparr>"
       and t = "Transform ''t1'' []" and q = "Query ''q1'' ''a''" and i = "''t1''"
       and n = 0 and ev = "Receive (SuccessMessage ''t2'' Undefined)"
       and r = "\<lparr>promise = 0, caller = UpdateCaller\<rparr>"
       and v = "Data ''r''" and e = TypeError]
  by (simp add: protoFree_def concrete_defs source_update_def postMessage_def awaitSend_def
      sendCompleted_def newRequest_def sent_def settle_def resolveRequest_def deleteRequest_def)

text \<open>
  C9, as stated, fails for the id \<open>__proto__\<close>: routing a reply tagged with it calls
  the resolver registered under it, but deletes no entry.
\<close>

theorem reply_routing_proto_counterexample:
  "requests (run [Activate, CallUpdate (Transform ''__proto__'' []), SendCompleted 0]
       (constructor quiet)) ''__proto__'' = Some \<lparr>promise = 0, caller = UpdateCaller\<rparr>
   \<and> handleMessage (SuccessMessage ''__proto__'' (Data ''r''))
       (run [Activate, CallUpdate (Transform ''__proto__'' []), SendCompleted 0] (constructor quiet))
     = (Returns Undefined,
        (run [Activate, CallUpdate (Transform ''__proto__'' []), SendCompleted 0] (constructor quiet))
          \<lparr>settled := [(0, Fulfilled (Data ''r''))],
            history := [Stored ''__proto__'' 0, Deleted ''__proto__'', Called 0]\<rparr>)
   \<and> requests (snd (handleMessage (SuccessMessage ''__proto__'' (Data ''r''))
       (run [Activate, CallUpdate (Transform ''__proto__'' []), SendCompleted 0]
          (constructor quiet)))) ''__proto__'' = Some \<lparr>promise = 0, caller = UpdateCaller\<rparr>"
  by (simp add: run_def concrete_defs source_update_def postMessage_def awaitSend_def
      sendCompleted_def newRequest_def resolveRequest_def settle_def deleteRequest_def)

text \<open>
  C9, amended. In every reachable state with a pending entry under an id \<open>i\<close> other
  than \<open>__proto__\<close>, routing a \<open>success\<close> or \<open>error\<close> reply tagged \<open>i\<close> calls exactly
  the resolver registered under \<open>i\<close> and deletes exactly that entry. Every entry under
  another id stays in the table and belongs to a different promise, and under any id
  but \<open>__proto__\<close> that promise still has had no resolver call.
\<close>

theorem reply_routing_frame:
  assumes reach: "s = run evs (constructor cfg)"
    and live: "requests s i = Some r" and key: "i \<noteq> ''__proto__''"
  shows "handleMessage (SuccessMessage i v) s =
       (Returns Undefined,
        s\<lparr>requests := (requests s)(i := None),
          settled := settled s @ [(promise r, resume (caller r) (Fulfilled v))],
          history := history s @ [Deleted i, Called (promise r)]\<rparr>)
     \<and> handleMessage (ErrorMessage i e) s =
       (Returns Undefined,
        s\<lparr>requests := (requests s)(i := None),
          settled := settled s @ [(promise r, Rejected e)],
          history := history s @ [Deleted i, Called (promise r)]\<rparr>)
     \<and> (\<forall>j r'. j \<noteq> i \<and> requests s j = Some r' \<longrightarrow>
          promise r' \<noteq> promise r
          \<and> requests (snd (handleMessage (SuccessMessage i v) s)) j = Some r'
          \<and> requests (snd (handleMessage (ErrorMessage i e) s)) j = Some r'
          \<and> (j \<noteq> ''__proto__'' \<longrightarrow>
               promise r' \<notin> fst ` set (settled (snd (handleMessage (SuccessMessage i v) s)))
               \<and> promise r' \<notin> fst ` set (settled (snd (handleMessage (ErrorMessage i e) s)))))"
proof -
  have inv: "table_inv s"
    unfolding reach by (rule table_inv_run)
  have ok: "handleMessage (SuccessMessage i v) s =
       (Returns Undefined,
        s\<lparr>requests := (requests s)(i := None),
          settled := settled s @ [(promise r, resume (caller r) (Fulfilled v))],
          history := history s @ [Deleted i, Called (promise r)]\<rparr>)"
    using live key by (simp add: resolveRequest_def settle_def deleteRequest_def)
  have err: "handleMessage (ErrorMessage i e) s =
       (Returns Undefined,
        s\<lparr>requests := (requests s)(i := None),
          settled := settled s @ [(promise r, Rejected e)],
          history := history s @ [Deleted i, Called (promise r)]\<rparr>)"
    using live key by (simp add: rejectRequest_def settle_def deleteRequest_def)
  have differs: "promise r' \<noteq> promise r"
    if "j \<noteq> i" "requests s j = Some r'" for j r'
    using table_inv_inj [OF inv that(2) live] that(1) by blast
  have unsettled: "promise r' \<notin> fst ` set (settled s)"
    if "j \<noteq> ''__proto__''" "requests s j = Some r'" for j r'
    using table_inv_unsettled [OF inv that(2) that(1)] .
  show ?thesis
    unfolding ok err using differs unsettled by auto
qed

theorem reply_routing_frame_witness:
  "requests (run [Activate, CallPull (Query ''q1'' ''a''), CallQuery (Query ''q2'' ''b''),
       SendCompleted 1, SendCompleted 0] (constructor quiet)) ''q1''
     = Some \<lparr>promise = 1, caller = PullCaller\<rparr>
   \<and> requests (snd (handleMessage (SuccessMessage ''q1'' Undefined)
         (run [Activate, CallPull (Query ''q1'' ''a''), CallQuery (Query ''q2'' ''b''),
           SendCompleted 1, SendCompleted 0] (constructor quiet)))) ''q2''
     = Some \<lparr>promise = 0, caller = QueryCaller\<rparr>
   \<and> requests (snd (handleMessage (SuccessMessage ''q1'' Undefined)
         (run [Activate, CallPull (Query ''q1'' ''a''), CallQuery (Query ''q2'' ''b''),
           SendCompleted 1, SendCompleted 0] (constructor quiet)))) ''q1'' = None
   \<and> settled (snd (handleMessage (SuccessMessage ''q1'' Undefined)
         (run [Activate, CallPull (Query ''q1'' ''a''), CallQuery (Query ''q2'' ''b''),
           SendCompleted 1, SendCompleted 0] (constructor quiet)))) = [(1, Fulfilled EmptyList)]"
  using reply_routing_frame [of
      "run [Activate, CallPull (Query ''q1'' ''a''), CallQuery (Query ''q2'' ''b''),
         SendCompleted 1, SendCompleted 0] (constructor quiet)"
      "[Activate, CallPull (Query ''q1'' ''a''), CallQuery (Query ''q2'' ''b''),
         SendCompleted 1, SendCompleted 0]" quiet
      "''q1''" "\<lparr>promise = 1, caller = PullCaller\<rparr>" Undefined TypeError]
  by (simp add: run_def concrete_defs source_pull_def source_query_def postMessage_def
      awaitSend_def sendCompleted_def newRequest_def)

end
